theory Spec2Isabelle
  imports Main "HOL-Library.Word" "HOL-Library.Sublist" "HOL-Library.Multiset"
begin

text \<open>
  A shallow embedding of the two source files of the build agent, \<open>buildbox/job.go\<close> (the
  run of one job: start, periodic status push with cancellation, finalization) and
  \<open>buildkite/artifact_uploader.go\<close> (collection of the artifacts and their upload), and the
  properties of them that the specification states.

  Both files act on the outside world. Each function of the embedding takes the answers of
  its collaborators (the server, the clock, the file system, the transport) as a record of
  functions and returns, beside its result, the list of what it did in order. Errors are
  strings; \<open>None\<close> stands for Go's nil error.
\<close>

section \<open>The job engine (buildbox/job.go)\<close>

subsection \<open>Data\<close>

text \<open>
  The \<open>Job\<close> struct. \<open>Env\<close> is a Go map; it is only iterated, so it is kept as the
  list of its entries in the order the iteration visits them.
\<close>

record Job =
  ID :: string
  State :: string
  Env :: "(string \<times> string) list"
  Output :: string
  ExitStatus :: string
  StartedAt :: string
  FinishedAt :: string

text \<open>
  The \<open>Process\<close> struct is declared outside the two source files. \<open>Run\<close> reads two
  of its fields: \<open>Output\<close>, assigned to a string, and \<open>ExitStatus\<close>, printed with
  \<open>%d\<close>, hence an integer. The field names carry a suffix because \<open>Job\<close> has fields
  of the same names.
\<close>

record Process =
  Output_Process :: string
  ExitStatus_Process :: int

text \<open>
  Everything \<open>Run\<close> does to the outside, in the order it does it: a line written
  with \<open>log.Printf\<close>, a \<open>client.JobUpdate\<close> call with the job it sends, the call of
  \<open>RunScript\<close> with its three data arguments, \<open>process.Kill()\<close>, and \<open>log.Fatal\<close>
  (which prints the error and exits the agent process with status 1).
\<close>

datatype event =
    EvLog string
  | EvJobUpdate Job
  | EvRunScript string string "string list"
  | EvKill
  | EvLogFatal string

text \<open>
  Modelled from the spec: \<open>RunScript\<close>, the Process Runner, is not among the source files.
  Section 4.2 of the specification: it spawns the script and calls the callback on a regular
  interval while the process is alive with a snapshot of the process and a handle that can
  \<open>Kill\<close> it; on natural exit it returns the final output and exit status; on spawn
  failure it fails before any callback fires; a kill is signalled to it only through the
  callback, and it does not say how soon a killed process exits.

  A launched process is therefore a finite tree: it has exited with a final \<open>Process\<close>, or
  it is alive at a tick with a snapshot and two futures, the one after a tick that did not
  call \<open>Kill\<close> and the one after a tick that did. A process that never exits is not
  represented.
\<close>

datatype proc =
    Exits Process
  | Ticks Process proc proc

text \<open>
  A launch fails with an error description, or succeeds with a process. The value
  \<open>RunScript\<close> hands back beside the error is dereferenced by \<open>Run\<close>; whether it can be
  a nil pointer depends on the missing declaration, so it is optional here (\<open>None\<close> is nil).
\<close>

datatype launch =
    LaunchError string "Process option"
  | Launched proc

text \<open>
  The collaborators of \<open>Run\<close>: the control-plane client (the answer to the n-th
  \<open>JobUpdate\<close> call, counted from 0, for the job it sends: the decoded job and the error,
  \<open>None\<close> for nil), the clock (\<open>time.Now().Format(time.RFC3339)\<close> at its n-th reading),
  the standard library's \<open>path.Dir\<close> and \<open>path.Base\<close>, and the behaviour of the script
  started from a directory, a name and an environment.
\<close>

record world =
  client_Put :: "nat \<Rightarrow> Job \<Rightarrow> Job \<times> string option"
  time_Now :: "nat \<Rightarrow> string"
  path_Dir :: "string \<Rightarrow> string"
  path_Base :: "string \<Rightarrow> string"
  script :: "string \<Rightarrow> string \<Rightarrow> string list \<Rightarrow> launch"

text \<open>The state \<open>Run\<close> threads: the job it mutates, the number of \<open>JobUpdate\<close> calls made
  so far, and the events so far.\<close>

record engine =
  job :: Job
  puts :: nat
  events :: "event list"

text \<open>How \<open>Run\<close> ends: it returns its error (\<open>None\<close> is nil), the agent process exits in
  \<open>log.Fatal\<close>, or a nil pointer is dereferenced.\<close>

datatype outcome =
    Returned "string option"
  | Fatal string
  | Panic

subsection \<open>Formatting\<close>

text \<open>\<open>fmt.Sprintf("%d", n)\<close>: the decimal digits, with a minus sign for a negative number.\<close>

fun dec_digits :: "nat \<Rightarrow> string" where
  "dec_digits n =
     (if n < 10 then [''0123456789'' ! n]
      else dec_digits (n div 10) @ [''0123456789'' ! (n mod 10)])"

declare dec_digits.simps [simp del]

definition Sprintf_d :: "int \<Rightarrow> string" where
  "Sprintf_d i = (if i < 0 then CHR ''-'' # dec_digits (nat (- i)) else dec_digits (nat i))"

subsection \<open>Operations\<close>

text \<open>\<open>client.JobUpdate(j)\<close>: one PUT of the job, answered by the client.\<close>

definition JobUpdate :: "world \<Rightarrow> engine \<Rightarrow> (Job \<times> string option) \<times> engine" where
  "JobUpdate w s =
     (client_Put w (puts s) (job s),
      s\<lparr>puts := Suc (puts s), events := events s @ [EvJobUpdate (job s)]\<rparr>)"

text \<open>The three ways one call of the callback ends.\<close>

datatype tick = Continue | Killed | FatalExit string

text \<open>The callback of \<open>Run\<close>, called with the process at a tick.\<close>

definition callback :: "world \<Rightarrow> engine \<Rightarrow> Process \<Rightarrow> tick \<times> engine" where
  "callback w s process =
     (let s1 = s\<lparr>job := (job s)\<lparr>Output := Output_Process process\<rparr>\<rparr>;
          ((updatedJob, err), s2) = JobUpdate w s1
      in case err of
           Some e \<Rightarrow> (FatalExit e, s2\<lparr>events := events s2 @ [EvLogFatal e]\<rparr>)
         | None \<Rightarrow>
             if State updatedJob = ''canceled''
             then (Killed,
                   s2\<lparr>events := events s2 @
                      [EvLog (''Cancelling job #'' @ ID (job s2)), EvKill]\<rparr>)
             else (Continue, s2))"

text \<open>
  Modelled from the spec: the Process Runner's loop over a launched process (see \<open>proc\<close>).
  At each tick it calls the callback; the process goes on along the future the callback
  chose; \<open>log.Fatal\<close> inside the callback ends everything (\<open>Inl\<close>).
\<close>

fun supervise :: "world \<Rightarrow> engine \<Rightarrow> proc \<Rightarrow> (string + Process) \<times> engine" where
  "supervise w s (Exits p) = (Inr p, s)"
| "supervise w s (Ticks p quiet killed) =
     (case callback w s p of
        (FatalExit e, s') \<Rightarrow> (Inl e, s')
      | (Killed, s') \<Rightarrow> supervise w s' killed
      | (Continue, s') \<Rightarrow> supervise w s' quiet)"

text \<open>
  Modelled from the spec: the call \<open>RunScript(scriptPath, scriptName, env, callback)\<close>.
  \<open>Inl\<close> is the exit of the agent in \<open>log.Fatal\<close>; \<open>Inr\<close> is the pair \<open>(process, err)\<close>
  the call returns.
\<close>

definition RunScript ::
  "world \<Rightarrow> engine \<Rightarrow> string \<Rightarrow> string \<Rightarrow> string list \<Rightarrow>
   (string + Process option \<times> string option) \<times> engine" where
  "RunScript w s scriptPath scriptName env =
     (let s' = s\<lparr>events := events s @ [EvRunScript scriptPath scriptName env]\<rparr>
      in case script w scriptPath scriptName env of
           LaunchError e handle \<Rightarrow> (Inr (handle, Some e), s')
         | Launched pr \<Rightarrow>
             (case supervise w s' pr of
                (Inl e, s'') \<Rightarrow> (Inl e, s'')
              | (Inr p, s'') \<Rightarrow> (Inr (Some p, None), s'')))"

text \<open>The first loop of \<open>Run\<close>: one \<open>key=value\<close> string for each entry of \<open>j.Env\<close>.\<close>

definition environ :: "Job \<Rightarrow> string list" where
  "environ j = map (\<lambda>(key, value). key @ ''='' @ value) (Env j)"

text \<open>\<open>Job.Run\<close>. The answer to the first \<open>JobUpdate\<close> is dropped, value and error, as
  is the answer to the last one.\<close>

definition Run :: "world \<Rightarrow> Job \<Rightarrow> string \<Rightarrow> outcome \<times> engine" where
  "Run w j bootstrapScript =
     (let s0 = \<lparr>job = j, puts = 0, events = [EvLog (''Starting job #'' @ ID j)]\<rparr>;
          env = environ j;
          s1 = s0\<lparr>job := (job s0)\<lparr>StartedAt := time_Now w 0\<rparr>\<rparr>;
          (_, s2) = JobUpdate w s1;
          scriptPath = path_Dir w bootstrapScript;
          scriptName = path_Base w bootstrapScript
      in case RunScript w s2 scriptPath scriptName env of
           (Inl e, s3) \<Rightarrow> (Fatal e, s3)
         | (Inr (process, err), s3) \<Rightarrow>
             (case (case err of
                      None \<Rightarrow> map_option Output_Process process
                    | Some e \<Rightarrow> Some e) of
                None \<Rightarrow> (Panic, s3)
              | Some out \<Rightarrow>
                  (let s4 = s3\<lparr>job := (job s3)\<lparr>Output := out\<rparr>\<rparr>;
                       s5 = s4\<lparr>job := (job s4)\<lparr>FinishedAt := time_Now w 1\<rparr>\<rparr>
                   in case process of
                        None \<Rightarrow> (Panic, s5)
                      | Some p \<Rightarrow>
                          (let s6 = s5\<lparr>job := (job s5)
                                     \<lparr>ExitStatus := Sprintf_d (ExitStatus_Process p)\<rparr>\<rparr>;
                               (_, s7) = JobUpdate w s6
                           in (Returned None,
                               s7\<lparr>events := events s7 @
                                  [EvLog (''Finished job #'' @ ID (job s7))]\<rparr>)))))"

section \<open>The artifact uploader (buildkite/artifact_uploader.go)\<close>

subsection \<open>Data\<close>

text \<open>
  The \<open>Artifact\<close> struct is declared outside the two source files; these are the fields the
  uploader assigns (\<open>FileSize\<close> from \<open>fileInfo.Size()\<close>, an int64). Its \<open>API\<close> field, a
  copy of the uploader's handle to the server, is the \<open>services\<close> record below. \<open>JobID\<close>
  and \<open>State\<close> carry a suffix because \<open>ArtifactUploader\<close> and \<open>Job\<close> have fields of the
  same names. A field never assigned holds Go's zero value, the empty string.
\<close>

record Artifact =
  JobID_Artifact :: string
  State_Artifact :: string
  Path :: string
  AbsolutePath :: string
  GlobPath :: string
  FileSize :: "64 word"
  Sha1Sum :: string
  URL :: string

record ArtifactUploader =
  JobID :: string
  Paths :: string
  Destination :: string

text \<open>The two implementations of the \<open>Uploader\<close> interface that \<open>upload\<close> instantiates.\<close>

datatype Uploader = S3Uploader | FormUploader

text \<open>
  What the uploader reads from the operating system during collection. Every call answers
  with an error (\<open>Inl\<close>, or \<open>Some\<close>) or a value: \<open>os.Getwd\<close> (its error is dropped by the
  code, which then holds the empty string), \<open>glob.Glob\<close>, \<open>filepath.Abs\<close>, \<open>os.Stat\<close>
  (the value is \<open>IsDir()\<close>), \<open>os.Open\<close>, \<open>file.Stat\<close> (the value is \<open>Size()\<close>),
  \<open>io.Copy(hash, file)\<close> (the bytes that reached the hash, and the read error if one cut
  the copy short), the hexadecimal SHA-1 of a byte string, and \<open>os.PathSeparator\<close>.
\<close>

record files =
  Getwd :: string
  Glob :: "string \<Rightarrow> string \<Rightarrow> string + string list"
  Abs :: "string \<Rightarrow> string + string"
  Stat :: "string \<Rightarrow> string + bool"
  Open :: "string \<Rightarrow> string option"
  File_Stat :: "string \<Rightarrow> string + 64 word"
  Copy :: "string \<Rightarrow> string \<times> string option"
  sha1_hex :: "string \<Rightarrow> string"
  PathSeparator :: char

text \<open>
  Everything the uploader does to the outside, in order: the lines it logs at each level, the
  calls to the transport and to the server, the pool operations, and the append to the shared
  \<open>errors\<close> slice. What a task does carries the number of the task (the tasks are numbered
  from 0 in the order they are spawned) and, for a call, the artifact as it is at the call
  and the answer the call received (an error is \<open>Some\<close>, nil is \<open>None\<close>).
\<close>

datatype effect =
    LogDebug string
  | LogInfo string
  | LogError string
  | LogFatal string
  | CallSetup Uploader string
  | CallCreate string "Artifact list"
  | Spawn
  | CallUpload nat Artifact "string option"
  | Lock nat
  | Append nat string
  | Unlock nat
  | CallUpdate nat Artifact "string option"
  | Wait

text \<open>
  One turn of the scheduler: the goroutine that runs \<open>upload\<close> goes on, or the task of that
  number does.
\<close>

datatype turn = Main | Task nat

text \<open>
  The collaborators of the upload phase: the three methods of the \<open>Uploader\<close> interface
  (of the chosen implementation, set up for a destination), \<open>ArtifactBatchCreator.Create\<close>
  and \<open>Artifact.Update\<close>. An error is \<open>Some\<close>, nil is \<open>None\<close>. The answers to
  \<open>Upload\<close> and to \<open>Update\<close>, which the tasks call while other tasks run, may depend on
  all that has happened before the call (the effects so far), so that two calls for equal
  artifacts can fare differently. The last collaborator is the Go scheduler: \<open>schedule\<close>
  is the order in which it lets the goroutines take their steps.
\<close>

record services =
  Uploader_Setup :: "Uploader \<Rightarrow> string \<Rightarrow> string option"
  Uploader_URL :: "Uploader \<Rightarrow> string \<Rightarrow> Artifact \<Rightarrow> string"
  Uploader_Upload :: "Uploader \<Rightarrow> string \<Rightarrow> effect list \<Rightarrow> Artifact \<Rightarrow> string option"
  BatchCreator_Create :: "string \<Rightarrow> Artifact list \<Rightarrow> string option"
  Artifact_Update :: "effect list \<Rightarrow> Artifact \<Rightarrow> string option"
  schedule :: "turn list"

text \<open>The result of a fallible call: the value, the error returned, or a nil dereference.\<close>

datatype 'a result = Ok 'a | Err string | Crash

subsection \<open>Strings\<close>

text \<open>\<open>strings.Split(s, sep)\<close> for a one-byte separator: one piece more than separators.\<close>

fun Split :: "string \<Rightarrow> char \<Rightarrow> string list" where
  "Split [] sep = [[]]"
| "Split (c # cs) sep =
     (if c = sep then [] # Split cs sep
      else (case Split cs sep of
              [] \<Rightarrow> [[c]]
            | piece # pieces \<Rightarrow> (c # piece) # pieces))"

text \<open>
  \<open>strings.TrimSpace\<close> on the bytes of a Go string: the runes \<open>unicode.IsSpace\<close> accepts, in
  UTF-8 (tab to carriage return, space, U+0085, U+00A0, U+1680, U+2000 to U+200A, U+2028,
  U+2029, U+202F, U+205F, U+3000), are cut from both ends.
\<close>

definition white_space :: "string list" where
  "white_space =
     [[CHR 0x09], [CHR 0x0A], [CHR 0x0B], [CHR 0x0C], [CHR 0x0D], [CHR 0x20],
      [CHR 0xC2, CHR 0x85], [CHR 0xC2, CHR 0xA0], [CHR 0xE1, CHR 0x9A, CHR 0x80],
      [CHR 0xE2, CHR 0x80, CHR 0x80], [CHR 0xE2, CHR 0x80, CHR 0x81],
      [CHR 0xE2, CHR 0x80, CHR 0x82], [CHR 0xE2, CHR 0x80, CHR 0x83],
      [CHR 0xE2, CHR 0x80, CHR 0x84], [CHR 0xE2, CHR 0x80, CHR 0x85],
      [CHR 0xE2, CHR 0x80, CHR 0x86], [CHR 0xE2, CHR 0x80, CHR 0x87],
      [CHR 0xE2, CHR 0x80, CHR 0x88], [CHR 0xE2, CHR 0x80, CHR 0x89],
      [CHR 0xE2, CHR 0x80, CHR 0x8A], [CHR 0xE2, CHR 0x80, CHR 0xA8],
      [CHR 0xE2, CHR 0x80, CHR 0xA9], [CHR 0xE2, CHR 0x80, CHR 0xAF],
      [CHR 0xE2, CHR 0x81, CHR 0x9F], [CHR 0xE3, CHR 0x80, CHR 0x80]]"

text \<open>The number of bytes of the pattern that starts the string, 0 when none does.\<close>

definition leading :: "string list \<Rightarrow> string \<Rightarrow> nat" where
  "leading pats s = (case find (\<lambda>p. p \<noteq> [] \<and> prefix p s) pats of None \<Rightarrow> 0 | Some p \<Rightarrow> length p)"

function trim_head :: "string list \<Rightarrow> string \<Rightarrow> string" where
  "trim_head pats s = (if leading pats s = 0 then s else trim_head pats (drop (leading pats s) s))"
  by pat_completeness auto
termination
proof (relation "measure (\<lambda>(pats, s). length s)")
  show "wf (measure (\<lambda>(pats, s). length s))"
    by simp
next
  fix pats :: "string list" and s :: string
  assume cut: "leading pats s \<noteq> 0"
  have "leading pats s \<le> length s"
    by (auto simp add: leading_def prefix_def split: option.splits
        dest!: find_Some_iff [THEN iffD1])
  with cut show "((pats, drop (leading pats s) s), (pats, s)) \<in> measure (\<lambda>(pats, s). length s)"
    by simp
qed

declare trim_head.simps [simp del]

definition TrimSpace :: "string \<Rightarrow> string" where
  "TrimSpace s = rev (trim_head (map rev white_space) (rev (trim_head white_space s)))"

text \<open>\<open>strings.Replace(s, old, "", 1)\<close>: the first occurrence of \<open>old\<close> is cut out.\<close>

fun Replace_first :: "string \<Rightarrow> string \<Rightarrow> string" where
  "Replace_first [] old = []"
| "Replace_first (c # cs) old =
     (if prefix old (c # cs) then drop (length old) (c # cs) else c # Replace_first cs old)"

definition TrimPrefix :: "string \<Rightarrow> string \<Rightarrow> string" where
  "TrimPrefix s pre = (if prefix pre s then drop (length pre) s else s)"

subsection \<open>Collection\<close>

text \<open>\<open>ArtifactUploader.build\<close>. The two results of \<open>io.Copy\<close> are dropped; the checksum is
  of the bytes that reached the hash.\<close>

definition build :: "ArtifactUploader \<Rightarrow> files \<Rightarrow> string \<Rightarrow> string \<Rightarrow> string \<Rightarrow> Artifact result" where
  "build a fs relativePath absolutePath globPath =
     (case Open fs absolutePath of
        Some e \<Rightarrow> Err e
      | None \<Rightarrow>
          (case File_Stat fs absolutePath of
             Inl e \<Rightarrow> Err e
           | Inr fileSize \<Rightarrow>
               (let checksum = sha1_hex fs (fst (Copy fs absolutePath))
                in Ok \<lparr>JobID_Artifact = JobID a, State_Artifact = ''new'',
                       Path = relativePath, AbsolutePath = absolutePath, GlobPath = globPath,
                       FileSize = fileSize, Sha1Sum = checksum, URL = ''''\<rparr>)))"

text \<open>
  The inner loop of \<open>collect\<close>, over the files one pattern matched. The error of \<open>os.Stat\<close> is
  assigned and never read: when \<open>os.Stat\<close> fails \<open>fileInfo\<close> is nil and \<open>fileInfo.IsDir()\<close>
  is a nil dereference.
\<close>

fun collect_files ::
  "ArtifactUploader \<Rightarrow> files \<Rightarrow> string \<Rightarrow> string list \<Rightarrow> Artifact list \<times> effect list \<Rightarrow>
   Artifact list result \<times> effect list" where
  "collect_files a fs globPath [] (artifacts, tr) = (Ok artifacts, tr)"
| "collect_files a fs globPath (file # rest) (artifacts, tr) =
     (case Abs fs file of
        Inl e \<Rightarrow> (Err e, tr)
      | Inr absolutePath \<Rightarrow>
          (case Stat fs absolutePath of
             Inl e \<Rightarrow> (Crash, tr)
           | Inr isDir \<Rightarrow>
               if isDir
               then collect_files a fs globPath rest
                      (artifacts, tr @ [LogDebug (''Skipping directory '' @ file)])
               else
                 (let relativePath = Replace_first absolutePath (Getwd fs);
                      relativePath = TrimPrefix relativePath [PathSeparator fs]
                  in case build a fs relativePath absolutePath globPath of
                       Err e \<Rightarrow> (Err e, tr)
                     | Crash \<Rightarrow> (Crash, tr)
                     | Ok artifact \<Rightarrow>
                         collect_files a fs globPath rest (artifacts @ [artifact], tr))))"

text \<open>The outer loop of \<open>collect\<close>, over the patterns.\<close>

fun collect_globs ::
  "ArtifactUploader \<Rightarrow> files \<Rightarrow> string list \<Rightarrow> Artifact list \<times> effect list \<Rightarrow>
   Artifact list result \<times> effect list" where
  "collect_globs a fs [] (artifacts, tr) = (Ok artifacts, tr)"
| "collect_globs a fs (globPath # rest) (artifacts, tr) =
     (let globPath = TrimSpace globPath
      in if globPath \<noteq> ''''
         then
           (let tr1 = tr @ [LogDebug (''Globbing '' @ Getwd fs @ '' for '' @ globPath)]
            in case Glob fs (Getwd fs) globPath of
                 Inl e \<Rightarrow> (Err e, tr1)
               | Inr matched \<Rightarrow>
                   (case collect_files a fs globPath matched (artifacts, tr1) of
                      (Err e, tr2) \<Rightarrow> (Err e, tr2)
                    | (Crash, tr2) \<Rightarrow> (Crash, tr2)
                    | (Ok artifacts', tr2) \<Rightarrow> collect_globs a fs rest (artifacts', tr2)))
         else collect_globs a fs rest (artifacts, tr))"

text \<open>\<open>ArtifactUploader.collect\<close>.\<close>

definition collect :: "ArtifactUploader \<Rightarrow> files \<Rightarrow> Artifact list result \<times> effect list" where
  "collect a fs = collect_globs a fs (Split (Paths a) CHR '';'') ([], [])"

subsection \<open>The upload phase\<close>

text \<open>The first statement of \<open>upload\<close>: the choice of the uploader, or the error returned.\<close>

definition choose_uploader :: "string \<Rightarrow> string + Uploader" where
  "choose_uploader destination =
     (if destination \<noteq> ''''
      then (if prefix ''s3://'' destination
            then Inr S3Uploader
            else Inl (''Unknown upload destination: '' @ destination))
      else Inr FormUploader)"

text \<open>The shared state of the tasks: the \<open>errors\<close> slice, and the effects so far.\<close>

record batch =
  errors :: "string list"
  trace :: "effect list"

definition say :: "effect \<Rightarrow> batch \<Rightarrow> batch" where
  "say x b = b\<lparr>trace := trace b @ [x]\<rparr>"

text \<open>
  The closure \<open>upload\<close> spawns for one artifact, cut at each thing it does to the outside.
  These are the places where a task can stand, each named after the statement it is about to
  execute; the places after a failed call carry the error, the closure's variable \<open>err\<close>:
  \<^item> \<open>AtInfo\<close>: \<open>logger.Info("Uploading ...")\<close>;
  \<^item> \<open>AtUpload\<close>: \<open>err := uploader.Upload(artifact)\<close>, together with the assignment to
    \<open>artifact.State\<close> that follows it on either branch (no other goroutine reads the
    artifact before \<open>Wait\<close> returns);
  \<^item> \<open>AtError1\<close>: \<open>logger.Error("Error uploading artifact ...")\<close>;
  \<^item> \<open>AtLock1\<close>, \<open>AtAppend1\<close>, \<open>AtUnlock1\<close>: \<open>p.Lock()\<close>,
    \<open>errors = append(errors, err)\<close>, \<open>p.Unlock()\<close>;
  \<^item> \<open>AtUpdate\<close>: \<open>err = artifact.Update()\<close>;
  \<^item> \<open>AtError2\<close>: \<open>logger.Error("Error marking artifact ...")\<close>;
  \<^item> \<open>AtLock2\<close>, \<open>AtAppend2\<close>, \<open>AtUnlock2\<close>: the second \<open>p.Lock()\<close>, append and
    \<open>p.Unlock()\<close>;
  \<^item> \<open>AtEnd\<close>: the closure has returned.
\<close>

datatype pc =
    AtInfo
  | AtUpload
  | AtError1 string
  | AtLock1 string
  | AtAppend1 string
  | AtUnlock1
  | AtUpdate
  | AtError2 string
  | AtLock2 string
  | AtAppend2 string
  | AtUnlock2
  | AtEnd

text \<open>A spawned task: the artifact its closure captured, and where it stands.\<close>

record running =
  held :: Artifact
  counter :: pc

text \<open>
  The state of the upload loop and its pool: the tasks spawned so far, the artifacts the loop
  has yet to spawn a task for, the task that holds the pool's lock if one does, and the
  shared state.
\<close>

record pool =
  spawned :: "running list"
  waiting :: "Artifact list"
  holder :: "nat option"
  shared :: batch

text \<open>One iteration of the loop of \<open>upload\<close>: \<open>p.Spawn\<close> of the closure for the next
  artifact. It returns at once; the task has yet to take its first step.\<close>

definition main_step :: "pool \<Rightarrow> pool" where
  "main_step p =
     (case waiting p of
        [] \<Rightarrow> p
      | artifact # rest \<Rightarrow>
          p\<lparr>spawned := spawned p @ [\<lparr>held = artifact, counter = AtInfo\<rparr>],
            waiting := rest,
            shared := say Spawn (shared p)\<rparr>)"

text \<open>Task \<open>i\<close> becomes \<open>t\<close> and does \<open>x\<close>.\<close>

definition move :: "nat \<Rightarrow> running \<Rightarrow> effect \<Rightarrow> pool \<Rightarrow> pool" where
  "move i t x p = p\<lparr>spawned := (spawned p)[i := t], shared := say x (shared p)\<rparr>"

text \<open>
  One step of task \<open>i\<close>: the statement of the closure it stands at. A task that has not been
  spawned or has returned does nothing, and neither does a task at \<open>p.Lock()\<close> while
  another task holds the lock: it stays blocked there.
\<close>

definition task_step :: "services \<Rightarrow> Uploader \<Rightarrow> string \<Rightarrow> nat \<Rightarrow> pool \<Rightarrow> pool" where
  "task_step sv uploader destination i p =
     (if i < length (spawned p)
      then
        (let t = spawned p ! i; artifact = held t
         in case counter t of
              AtInfo \<Rightarrow>
                move i (t\<lparr>counter := AtUpload\<rparr>)
                  (LogInfo (''Uploading '' @ [CHR 0x22] @ Path artifact @ [CHR 0x22] @ '' '' @
                     Sprintf_d (sint (FileSize artifact)) @ '' bytes'')) p
            | AtUpload \<Rightarrow>
                (let err = Uploader_Upload sv uploader destination (trace (shared p)) artifact
                 in case err of
                      Some e \<Rightarrow>
                        move i \<lparr>held = artifact\<lparr>State_Artifact := ''error''\<rparr>,
                                counter = AtError1 e\<rparr>
                          (CallUpload i artifact err) p
                    | None \<Rightarrow>
                        move i \<lparr>held = artifact\<lparr>State_Artifact := ''finished''\<rparr>,
                                counter = AtUpdate\<rparr>
                          (CallUpload i artifact err) p)
            | AtError1 e \<Rightarrow>
                move i (t\<lparr>counter := AtLock1 e\<rparr>)
                  (LogError (''Error uploading artifact '' @ [CHR 0x22] @ Path artifact @
                     [CHR 0x22] @ '': '' @ e)) p
            | AtLock1 e \<Rightarrow>
                (case holder p of
                   Some other \<Rightarrow> p
                 | None \<Rightarrow> (move i (t\<lparr>counter := AtAppend1 e\<rparr>) (Lock i) p)\<lparr>holder := Some i\<rparr>)
            | AtAppend1 e \<Rightarrow>
                move i (t\<lparr>counter := AtUnlock1\<rparr>) (Append i e)
                  (p\<lparr>shared := (shared p)\<lparr>errors := errors (shared p) @ [e]\<rparr>\<rparr>)
            | AtUnlock1 \<Rightarrow>
                (move i (t\<lparr>counter := AtUpdate\<rparr>) (Unlock i) p)\<lparr>holder := None\<rparr>
            | AtUpdate \<Rightarrow>
                (let err = Artifact_Update sv (trace (shared p)) artifact
                 in case err of
                      Some e \<Rightarrow> move i (t\<lparr>counter := AtError2 e\<rparr>) (CallUpdate i artifact err) p
                    | None \<Rightarrow> move i (t\<lparr>counter := AtEnd\<rparr>) (CallUpdate i artifact err) p)
            | AtError2 e \<Rightarrow>
                move i (t\<lparr>counter := AtLock2 e\<rparr>)
                  (LogError (''Error marking artifact '' @ Path artifact @
                     '' as uploaded: '' @ e)) p
            | AtLock2 e \<Rightarrow>
                (case holder p of
                   Some other \<Rightarrow> p
                 | None \<Rightarrow> (move i (t\<lparr>counter := AtAppend2 e\<rparr>) (Lock i) p)\<lparr>holder := Some i\<rparr>)
            | AtAppend2 e \<Rightarrow>
                move i (t\<lparr>counter := AtUnlock2\<rparr>) (Append i e)
                  (p\<lparr>shared := (shared p)\<lparr>errors := errors (shared p) @ [e]\<rparr>\<rparr>)
            | AtUnlock2 \<Rightarrow>
                (move i (t\<lparr>counter := AtEnd\<rparr>) (Unlock i) p)\<lparr>holder := None\<rparr>
            | AtEnd \<Rightarrow> p)
      else p)"

text \<open>
  Modelled from the spec: the \<open>pool\<close> package is not among the source files. Section 4.1 of
  the specification: \<open>Spawn\<close> schedules a task and returns at once, the tasks run
  concurrently, \<open>Wait\<close> blocks until all submitted tasks have completed, and the lock is
  exclusive. Section 5: no order is guaranteed between different artifacts.

  A run of the loop and its tasks is therefore led by a list of turns. A turn that cannot be
  taken (nothing is left to spawn, the task is not spawned yet, has returned, or is blocked)
  is skipped. Every interleaving of the steps of the loop and of the tasks is the run of
  some list of turns. The ceiling on the number of tasks that run at once
  (\<open>pool.MaxConcurrencyLimit\<close>) only excludes some of these runs.
\<close>

fun take_turn :: "services \<Rightarrow> Uploader \<Rightarrow> string \<Rightarrow> pool \<Rightarrow> turn \<Rightarrow> pool" where
  "take_turn sv uploader destination p Main = main_step p"
| "take_turn sv uploader destination p (Task i) = task_step sv uploader destination i p"

definition run_turns :: "services \<Rightarrow> Uploader \<Rightarrow> string \<Rightarrow> turn list \<Rightarrow> pool \<Rightarrow> pool" where
  "run_turns sv uploader destination turns p = foldl (take_turn sv uploader destination) p turns"

text \<open>
  Modelled from the spec: \<open>Wait\<close>. When the scheduler's list of turns is used up, what is
  left to do is done in a fixed order, so that every run comes to its end: the loop spawns
  the tasks it has yet to spawn, the task that holds the lock runs to its end, then every
  task in turn runs to its end (a task has at most eleven steps). A list of turns that
  already leads every task to its end is left as it is.
\<close>

definition settle :: "services \<Rightarrow> Uploader \<Rightarrow> string \<Rightarrow> pool \<Rightarrow> pool" where
  "settle sv uploader destination p =
     (let n = length (spawned p) + length (waiting p);
          p1 = run_turns sv uploader destination (replicate (length (waiting p)) Main) p;
          p2 = (case holder p1 of
                  None \<Rightarrow> p1
                | Some h \<Rightarrow> run_turns sv uploader destination (replicate 11 (Task h)) p1)
      in run_turns sv uploader destination
           (concat (map (\<lambda>i. replicate 11 (Task i)) [0..<n])) p2)"

text \<open>
  The loop of \<open>upload\<close> over the artifacts and the tasks it spawns, up to the return of
  \<open>p.Wait()\<close>, under the scheduler of \<open>sv\<close>: the artifacts as the tasks leave them, and
  the shared state.
\<close>

definition spawn_and_wait ::
  "services \<Rightarrow> Uploader \<Rightarrow> string \<Rightarrow> Artifact list \<Rightarrow> batch \<Rightarrow> Artifact list \<times> batch" where
  "spawn_and_wait sv uploader destination artifacts b =
     (let p0 = \<lparr>spawned = [], waiting = artifacts, holder = None, shared = b\<rparr>;
          p = settle sv uploader destination
                (run_turns sv uploader destination (schedule sv) p0)
      in (map held (spawned p), shared p))"

text \<open>
  \<open>ArtifactUploader.upload\<close>. It yields how it ends, the artifacts as it leaves them (they
  are shared with the caller through pointers), the \<open>errors\<close> slice and its effects.

  Modelled from the spec: \<open>logger.Fatal\<close> (the \<open>logger\<close> package is not among the source
  files) is the report of overall failure of section 4.5; like \<open>log.Fatal\<close> it ends the agent
  process.
\<close>

definition upload ::
  "ArtifactUploader \<Rightarrow> services \<Rightarrow> Artifact list \<Rightarrow> outcome \<times> Artifact list \<times> batch" where
  "upload a sv artifacts =
     (case choose_uploader (Destination a) of
        Inl e \<Rightarrow> (Returned (Some e), artifacts, \<lparr>errors = [], trace = []\<rparr>)
      | Inr uploader \<Rightarrow>
          (let b0 = \<lparr>errors = [], trace = [CallSetup uploader (Destination a)]\<rparr>
           in case Uploader_Setup sv uploader (Destination a) of
                Some e \<Rightarrow> (Returned (Some e), artifacts, b0)
              | None \<Rightarrow>
                  (let artifacts1 =
                         map (\<lambda>artifact. artifact\<lparr>URL :=
                                Uploader_URL sv uploader (Destination a) artifact\<rparr>) artifacts;
                       b1 = say (CallCreate (JobID a) artifacts1) b0
                   in case BatchCreator_Create sv (JobID a) artifacts1 of
                        Some e \<Rightarrow> (Returned (Some e), artifacts1, b1)
                      | None \<Rightarrow>
                          (let (artifacts2, b2) =
                                 spawn_and_wait sv uploader (Destination a) artifacts1 b1;
                               b3 = say Wait b2
                           in if length (errors b3) > 0
                              then (Fatal ''There were errors with uploading some of the artifacts'',
                                    artifacts2,
                                    say (LogFatal
                                      ''There were errors with uploading some of the artifacts'') b3)
                              else (Returned None, artifacts2, b3)))))"

text \<open>\<open>ArtifactUploader.Upload\<close>: how it ends, the artifacts, and all its effects in order.\<close>

definition Upload ::
  "ArtifactUploader \<Rightarrow> files \<Rightarrow> services \<Rightarrow> outcome \<times> Artifact list \<times> effect list" where
  "Upload a fs sv =
     (case collect a fs of
        (Err e, tr) \<Rightarrow> (Returned (Some e), [], tr)
      | (Crash, tr) \<Rightarrow> (Panic, [], tr)
      | (Ok artifacts, tr) \<Rightarrow>
          if length artifacts = 0
          then (Returned None, artifacts,
                tr @ [LogInfo (''No files matched paths: '' @ Paths a)])
          else
            (case upload a sv artifacts of
               (ended, artifacts', b) \<Rightarrow>
                 (ended, artifacts',
                  tr @ [LogInfo (''Found '' @ dec_digits (length artifacts) @
                           '' files that match '' @ [CHR 0x22] @ Paths a @ [CHR 0x22])] @
                  trace b)))"

section \<open>Notions used in the statements\<close>

text \<open>
  The definitions of this section are not code of the agent. They name the states a run passes
  through and read lists of effects, so that the properties can be stated.
\<close>

subsection \<open>States of a run\<close>

text \<open>The state after the status push of a tick with process snapshot \<open>p\<close>: the output is
  copied into the job and the job is sent.\<close>

definition pushed :: "engine \<Rightarrow> Process \<Rightarrow> engine" where
  "pushed s p =
     s\<lparr>job := (job s)\<lparr>Output := Output_Process p\<rparr>,
       puts := Suc (puts s),
       events := events s @ [EvJobUpdate ((job s)\<lparr>Output := Output_Process p\<rparr>)]\<rparr>"

text \<open>The state in which \<open>Run\<close> has called \<open>RunScript\<close>: the start is logged, \<open>StartedAt\<close> is
  stamped and pushed.\<close>

definition launching :: "world \<Rightarrow> Job \<Rightarrow> string \<Rightarrow> engine" where
  "launching w j b =
     \<lparr>job = j\<lparr>StartedAt := time_Now w 0\<rparr>,
      puts = 1,
      events = [EvLog (''Starting job #'' @ ID j),
                EvJobUpdate (j\<lparr>StartedAt := time_Now w 0\<rparr>),
                EvRunScript (path_Dir w b) (path_Base w b) (environ j)]\<rparr>"

text \<open>The state after the last four statements of \<open>Run\<close>, entered in state \<open>s\<close> with the
  output \<open>out\<close> to record and the process \<open>p\<close> that \<open>RunScript\<close> handed back.\<close>

definition finalized :: "world \<Rightarrow> engine \<Rightarrow> string \<Rightarrow> Process \<Rightarrow> engine" where
  "finalized w s out p =
     s\<lparr>job := (job s)\<lparr>Output := out, FinishedAt := time_Now w 1,
                       ExitStatus := Sprintf_d (ExitStatus_Process p)\<rparr>,
       puts := Suc (puts s),
       events := events s @
         [EvJobUpdate ((job s)\<lparr>Output := out, FinishedAt := time_Now w 1,
                               ExitStatus := Sprintf_d (ExitStatus_Process p)\<rparr>),
          EvLog (''Finished job #'' @ ID (job s))]\<rparr>"

subsection \<open>Reading a list of effects\<close>

text \<open>The artifacts handed to \<open>uploader.Upload\<close>, to \<open>artifact.Update\<close>, and the errors
  appended to \<open>errors\<close>, each in the order of the calls, whichever task made them.\<close>

fun uploads_in :: "effect list \<Rightarrow> Artifact list" where
  "uploads_in [] = []"
| "uploads_in (CallUpload i x a # tr) = x # uploads_in tr"
| "uploads_in (_ # tr) = uploads_in tr"

fun updates_in :: "effect list \<Rightarrow> Artifact list" where
  "updates_in [] = []"
| "updates_in (CallUpdate i x a # tr) = x # updates_in tr"
| "updates_in (_ # tr) = updates_in tr"

fun appends_in :: "effect list \<Rightarrow> string list" where
  "appends_in [] = []"
| "appends_in (Append i e # tr) = e # appends_in tr"
| "appends_in (_ # tr) = appends_in tr"

text \<open>What the task with number \<open>i\<close> (the one spawned for the i-th artifact, counted from
  0) did: its calls of \<open>uploader.Upload\<close> and of \<open>artifact.Update\<close>, each with the
  artifact as it was handed over and the answer, and the errors it appended.\<close>

fun attempts :: "effect list \<Rightarrow> nat \<Rightarrow> (Artifact \<times> string option) list" where
  "attempts [] i = []"
| "attempts (CallUpload j x a # tr) i = (if j = i then (x, a) # attempts tr i else attempts tr i)"
| "attempts (_ # tr) i = attempts tr i"

fun pushes :: "effect list \<Rightarrow> nat \<Rightarrow> (Artifact \<times> string option) list" where
  "pushes [] i = []"
| "pushes (CallUpdate j x a # tr) i = (if j = i then (x, a) # pushes tr i else pushes tr i)"
| "pushes (_ # tr) i = pushes tr i"

fun recorded :: "effect list \<Rightarrow> nat \<Rightarrow> string list" where
  "recorded [] i = []"
| "recorded (Append j e # tr) i = (if j = i then e # recorded tr i else recorded tr i)"
| "recorded (_ # tr) i = recorded tr i"

text \<open>
  The lock along a list of effects, from the holder \<open>h\<close> (\<open>None\<close> when it is free): the
  result is \<open>None\<close> when a task takes the lock while it is held, or releases it or appends
  to \<open>errors\<close> while it does not hold it; otherwise it is the holder at the end.
\<close>

fun lock_run :: "nat option \<Rightarrow> effect list \<Rightarrow> nat option option" where
  "lock_run h [] = Some h"
| "lock_run h (Lock i # tr) = (if h = None then lock_run (Some i) tr else None)"
| "lock_run h (Unlock i # tr) = (if h = Some i then lock_run None tr else None)"
| "lock_run h (Append i e # tr) = (if h = Some i then lock_run h tr else None)"
| "lock_run h (_ # tr) = lock_run h tr"

text \<open>
  Every answer in a list of effects is the one the collaborator gives at that moment: the
  answer of each \<open>uploader.Upload\<close> and of each \<open>artifact.Update\<close> is that of \<open>sv\<close> for
  the effects that precede the call (\<open>past\<close> holds those before the list).
\<close>

fun answered :: "services \<Rightarrow> Uploader \<Rightarrow> string \<Rightarrow> effect list \<Rightarrow> effect list \<Rightarrow> bool" where
  "answered sv uploader destination past [] = True"
| "answered sv uploader destination past (CallUpload i x a # tr) =
     (a = Uploader_Upload sv uploader destination past x \<and>
      answered sv uploader destination (past @ [CallUpload i x a]) tr)"
| "answered sv uploader destination past (CallUpdate i x a # tr) =
     (a = Artifact_Update sv past x \<and>
      answered sv uploader destination (past @ [CallUpdate i x a]) tr)"
| "answered sv uploader destination past (y # tr) =
     answered sv uploader destination (past @ [y]) tr"

text \<open>The effects that are not log lines: the calls to the transport, the server and the pool.\<close>

fun is_log :: "effect \<Rightarrow> bool" where
  "is_log (LogDebug m) = True"
| "is_log (LogInfo m) = True"
| "is_log (LogError m) = True"
| "is_log (LogFatal m) = True"
| "is_log _ = False"

definition calls_in :: "effect list \<Rightarrow> effect list" where
  "calls_in tr = filter (\<lambda>x. \<not> is_log x) tr"

text \<open>The effects before the first \<open>Wait\<close>, and those after it.\<close>

definition before_Wait :: "effect list \<Rightarrow> effect list" where
  "before_Wait tr = takeWhile (\<lambda>x. x \<noteq> Wait) tr"

definition after_Wait :: "effect list \<Rightarrow> effect list" where
  "after_Wait tr = drop 1 (dropWhile (\<lambda>x. x \<noteq> Wait) tr)"

subsection \<open>What a task is expected to leave\<close>

text \<open>The manifest once every artifact has the URL the transport gives it.\<close>

definition with_URLs :: "services \<Rightarrow> Uploader \<Rightarrow> string \<Rightarrow> Artifact list \<Rightarrow> Artifact list" where
  "with_URLs sv uploader destination artifacts =
     map (\<lambda>artifact. artifact\<lparr>URL := Uploader_URL sv uploader destination artifact\<rparr>) artifacts"

text \<open>The state of an artifact after its upload attempt: \<open>finished\<close> when the transport
  returned nil, \<open>error\<close> when it returned an error.\<close>

definition verdict :: "string option \<Rightarrow> string" where
  "verdict err = (case err of None \<Rightarrow> ''finished'' | Some e \<Rightarrow> ''error'')"

text \<open>The errors an answer contributes to \<open>errors\<close>: none for nil, the error otherwise.\<close>

definition error_of :: "string option \<Rightarrow> string list" where
  "error_of err = (case err of None \<Rightarrow> [] | Some e \<Rightarrow> [e])"

text \<open>The line \<open>upload\<close> logs with \<open>logger.Fatal\<close>.\<close>

definition failure_report :: string where
  "failure_report = ''There were errors with uploading some of the artifacts''"

subsection \<open>The invariant of the pool\<close>

text \<open>The statements at which a task holds the lock, and the number of steps a task has
  left at most.\<close>

fun holds :: "pc \<Rightarrow> bool" where
  "holds (AtAppend1 e) = True"
| "holds AtUnlock1 = True"
| "holds (AtAppend2 e) = True"
| "holds AtUnlock2 = True"
| "holds _ = False"

fun rank :: "pc \<Rightarrow> nat" where
  "rank AtInfo = 11"
| "rank AtUpload = 10"
| "rank (AtError1 e) = 9"
| "rank (AtLock1 e) = 8"
| "rank (AtAppend1 e) = 7"
| "rank AtUnlock1 = 6"
| "rank AtUpdate = 5"
| "rank (AtError2 e) = 4"
| "rank (AtLock2 e) = 3"
| "rank (AtAppend2 e) = 2"
| "rank AtUnlock2 = 1"
| "rank AtEnd = 0"

text \<open>
  What holds of the task with number \<open>i\<close>, spawned for the artifact \<open>x0\<close>, at each of its
  statements, given the effects so far: the artifact it holds is \<open>x0\<close> with the state its
  upload gave it, and its calls and appended errors are those of the statements it has passed.
\<close>

definition task_ok :: "nat \<Rightarrow> Artifact \<Rightarrow> running \<Rightarrow> effect list \<Rightarrow> bool" where
  "task_ok i x0 t tr =
     (case counter t of
        AtInfo \<Rightarrow> held t = x0 \<and> attempts tr i = [] \<and> pushes tr i = [] \<and> recorded tr i = []
      | AtUpload \<Rightarrow> held t = x0 \<and> attempts tr i = [] \<and> pushes tr i = [] \<and> recorded tr i = []
      | AtError1 e \<Rightarrow>
          held t = x0\<lparr>State_Artifact := ''error''\<rparr> \<and> attempts tr i = [(x0, Some e)] \<and>
          pushes tr i = [] \<and> recorded tr i = []
      | AtLock1 e \<Rightarrow>
          held t = x0\<lparr>State_Artifact := ''error''\<rparr> \<and> attempts tr i = [(x0, Some e)] \<and>
          pushes tr i = [] \<and> recorded tr i = []
      | AtAppend1 e \<Rightarrow>
          held t = x0\<lparr>State_Artifact := ''error''\<rparr> \<and> attempts tr i = [(x0, Some e)] \<and>
          pushes tr i = [] \<and> recorded tr i = []
      | AtUnlock1 \<Rightarrow>
          (\<exists>e. held t = x0\<lparr>State_Artifact := ''error''\<rparr> \<and> attempts tr i = [(x0, Some e)] \<and>
               pushes tr i = [] \<and> recorded tr i = [e])
      | AtUpdate \<Rightarrow>
          (\<exists>a. held t = x0\<lparr>State_Artifact := verdict a\<rparr> \<and> attempts tr i = [(x0, a)] \<and>
               pushes tr i = [] \<and> recorded tr i = error_of a)
      | AtError2 e \<Rightarrow>
          (\<exists>a. held t = x0\<lparr>State_Artifact := verdict a\<rparr> \<and> attempts tr i = [(x0, a)] \<and>
               pushes tr i = [(held t, Some e)] \<and> recorded tr i = error_of a)
      | AtLock2 e \<Rightarrow>
          (\<exists>a. held t = x0\<lparr>State_Artifact := verdict a\<rparr> \<and> attempts tr i = [(x0, a)] \<and>
               pushes tr i = [(held t, Some e)] \<and> recorded tr i = error_of a)
      | AtAppend2 e \<Rightarrow>
          (\<exists>a. held t = x0\<lparr>State_Artifact := verdict a\<rparr> \<and> attempts tr i = [(x0, a)] \<and>
               pushes tr i = [(held t, Some e)] \<and> recorded tr i = error_of a)
      | AtUnlock2 \<Rightarrow>
          (\<exists>a e. held t = x0\<lparr>State_Artifact := verdict a\<rparr> \<and> attempts tr i = [(x0, a)] \<and>
               pushes tr i = [(held t, Some e)] \<and> recorded tr i = error_of a @ [e])
      | AtEnd \<Rightarrow>
          (\<exists>a a'. held t = x0\<lparr>State_Artifact := verdict a\<rparr> \<and> attempts tr i = [(x0, a)] \<and>
               pushes tr i = [(held t, a')] \<and> recorded tr i = error_of a @ error_of a'))"

text \<open>
  What holds of the pool at every moment of every run over the manifest \<open>arts\<close>: the tasks
  spawned are those of a prefix of the manifest, each as \<open>task_ok\<close> says; the lock is held by
  the one task that stands between its \<open>Lock\<close> and its \<open>Unlock\<close>; a task not yet spawned
  has done nothing; \<open>errors\<close> holds the errors appended; the lock was used as a lock.
\<close>

definition pool_ok :: "Artifact list \<Rightarrow> pool \<Rightarrow> bool" where
  "pool_ok arts p =
     (waiting p = drop (length (spawned p)) arts \<and>
      length (spawned p) \<le> length arts \<and>
      (\<forall>i < length (spawned p).
         task_ok i (arts ! i) (spawned p ! i) (trace (shared p)) \<and>
         (holds (counter (spawned p ! i)) \<longleftrightarrow> holder p = Some i)) \<and>
      (\<forall>i \<ge> length (spawned p).
         attempts (trace (shared p)) i = [] \<and> pushes (trace (shared p)) i = [] \<and>
         recorded (trace (shared p)) i = [] \<and> holder p \<noteq> Some i) \<and>
      errors (shared p) = appends_in (trace (shared p)) \<and>
      lock_run None (trace (shared p)) = Some (holder p) \<and>
      Wait \<notin> set (trace (shared p)) \<and>
      length (filter (\<lambda>x. x = Spawn) (trace (shared p))) = length (spawned p))"

section \<open>Concrete inputs\<close>

text \<open>The inputs at which the properties are instantiated and the code is evaluated.\<close>

subsection \<open>Runs of a job\<close>

text \<open>A job as the server hands it out.\<close>

definition job7 :: Job where
  "job7 = \<lparr>ID = ''7'', State = ''running'', Env = [(''CI'', ''true'')], Output = '''',
           ExitStatus = '''', StartedAt = '''', FinishedAt = ''''\<rparr>"

definition snapshot :: "string \<Rightarrow> int \<Rightarrow> Process" where
  "snapshot out st = \<lparr>Output_Process = out, ExitStatus_Process = st\<rparr>"

text \<open>A world from a client and a script behaviour; the clock reads 10:00:00 at the start and
  10:00:03 at the end.\<close>

definition mk_world :: "(nat \<Rightarrow> Job \<Rightarrow> Job \<times> string option) \<Rightarrow> launch \<Rightarrow> world" where
  "mk_world c l =
     \<lparr>client_Put = c,
      time_Now = (\<lambda>n. if n = 0 then ''2014-06-01T10:00:00Z'' else ''2014-06-01T10:00:03Z''),
      path_Dir = (\<lambda>_. ''/srv/agent''),
      path_Base = (\<lambda>_. ''bootstrap.sh''),
      script = (\<lambda>_ _ _. l)\<rparr>"

text \<open>A script that is alive for three ticks and then exits with status 0, and that exits
  with status -1 before the next tick when it is killed.\<close>

definition three_ticks :: proc where
  "three_ticks =
     Ticks (snapshot ''a'' 0)
       (Ticks (snapshot ''ab'' 0)
          (Ticks (snapshot ''abc'' 0) (Exits (snapshot ''abcd'' 0)) (Exits (snapshot ''abc'' (- 1))))
          (Exits (snapshot ''ab'' (- 1))))
       (Exits (snapshot ''a'' (- 1)))"

text \<open>The server reports the job canceled in its answer to the second tick (the third push).\<close>

definition w_cancel :: world where
  "w_cancel =
     mk_world (\<lambda>n j. (j\<lparr>State := (if n = 2 then ''canceled'' else ''running'')\<rparr>, None))
       (Launched three_ticks)"

text \<open>The push of the second tick fails.\<close>

definition w_broken :: world where
  "w_broken =
     mk_world (\<lambda>n j. (j, if n = 2 then Some ''connection refused'' else None))
       (Launched three_ticks)"

text \<open>The first push, the one that reports \<open>StartedAt\<close>, fails; the script exits before the
  first tick.\<close>

definition w_deaf :: world where
  "w_deaf =
     mk_world (\<lambda>n j. (j, if n = 0 then Some ''connection refused'' else None))
       (Launched (Exits (snapshot ''ok'' 0)))"

text \<open>The script cannot be started; \<open>RunScript\<close> hands back a process with Go's zero values.\<close>

definition w_nolaunch :: world where
  "w_nolaunch =
     mk_world (\<lambda>n j. (j, None))
       (LaunchError ''fork/exec /srv/agent/bootstrap.sh: permission denied''
          (Some (snapshot '''' 0)))"

subsection \<open>Uploads\<close>

text \<open>Three uploaders that differ in their destination, and three artifacts of job 7.\<close>

definition uploader_s3 :: ArtifactUploader where
  "uploader_s3 = \<lparr>JobID = ''7'', Paths = ''*.log; ;out/*'', Destination = ''s3://bucket/path''\<rparr>"

definition uploader_form :: ArtifactUploader where
  "uploader_form = \<lparr>JobID = ''7'', Paths = ''*.log'', Destination = ''''\<rparr>"

definition uploader_ftp :: ArtifactUploader where
  "uploader_ftp = \<lparr>JobID = ''7'', Paths = ''*.log'', Destination = ''ftp://host/dir''\<rparr>"

definition log_file :: "string \<Rightarrow> Artifact" where
  "log_file name =
     \<lparr>JobID_Artifact = ''7'', State_Artifact = ''new'', Path = name,
      AbsolutePath = ''/w/'' @ name, GlobPath = ''*.log'', FileSize = 3,
      Sha1Sum = ''a9993e364706816aba3e25717850c26c9cd0d89d'', URL = ''''\<rparr>"

definition three_logs :: "Artifact list" where
  "three_logs = [log_file ''a.log'', log_file ''b.log'', log_file ''c.log'']"

text \<open>A server and a transport where the upload of \<open>b.log\<close> alone fails, whenever it is
  tried; the scheduler leaves every task to \<open>Wait\<close>.\<close>

definition sv_one_fails :: services where
  "sv_one_fails =
     \<lparr>Uploader_Setup = (\<lambda>_ _. None),
      Uploader_URL = (\<lambda>_ _ x. ''https://bucket.s3.amazonaws.com/path/'' @ Path x),
      Uploader_Upload = (\<lambda>_ _ _ x. if Path x = ''b.log'' then Some ''403 Forbidden'' else None),
      BatchCreator_Create = (\<lambda>_ _. None),
      Artifact_Update = (\<lambda>_ _. None),
      schedule = []\<rparr>"

text \<open>
  The uploads of \<open>b.log\<close> and of \<open>c.log\<close> fail. The loop spawns the three tasks; the task of
  \<open>b.log\<close> runs up to its \<open>Lock\<close>; the task of \<open>c.log\<close> runs and takes the lock; the task of
  \<open>b.log\<close> is blocked; the task of \<open>c.log\<close> appends and unlocks; the task of \<open>b.log\<close> locks,
  appends and unlocks. The rest is left to \<open>Wait\<close>.
\<close>

definition sv_racing :: services where
  "sv_racing =
     \<lparr>Uploader_Setup = (\<lambda>_ _. None),
      Uploader_URL = (\<lambda>_ _ x. ''https://bucket.s3.amazonaws.com/path/'' @ Path x),
      Uploader_Upload = (\<lambda>_ _ _ x. if Path x = ''b.log'' then Some ''403 Forbidden''
                                    else if Path x = ''c.log'' then Some ''timeout'' else None),
      BatchCreator_Create = (\<lambda>_ _. None),
      Artifact_Update = (\<lambda>_ _. None),
      schedule = [Main, Main, Main, Task 1, Task 1, Task 1, Task 2, Task 2, Task 2, Task 2,
                  Task 1, Task 2, Task 2, Task 1, Task 1, Task 1]\<rparr>"

text \<open>
  The same file listed twice, as the patterns \<open>*.log;*.log\<close> give it, and a transport that
  refuses a path it has already been handed. The second task is scheduled first.
\<close>

definition twice :: "Artifact list" where
  "twice = [log_file ''a.log'', log_file ''a.log'']"

definition sv_conflict :: services where
  "sv_conflict =
     \<lparr>Uploader_Setup = (\<lambda>_ _. None),
      Uploader_URL = (\<lambda>_ _ x. ''https://bucket.s3.amazonaws.com/path/'' @ Path x),
      Uploader_Upload = (\<lambda>_ _ past x. if Path x \<in> set (map Path (uploads_in past))
                                       then Some ''409 Conflict'' else None),
      BatchCreator_Create = (\<lambda>_ _. None),
      Artifact_Update = (\<lambda>_ _. None),
      schedule = [Main, Main, Task 1, Task 1]\<rparr>"

text \<open>A server that refuses the batch registration.\<close>

definition sv_unregistered :: services where
  "sv_unregistered = sv_one_fails\<lparr>BatchCreator_Create := (\<lambda>_ _. Some ''422 Unprocessable Entity'')\<rparr>"

text \<open>A working directory \<open>/w\<close> in which every pattern matches what \<open>matched\<close> lists; the SHA-1
  table holds the two byte strings the examples hash.\<close>

definition directory :: "string list \<Rightarrow> files" where
  "directory matched =
     \<lparr>Getwd = ''/w'',
      Glob = (\<lambda>_ _. Inr matched),
      Abs = (\<lambda>file. Inr file),
      Stat = (\<lambda>_. Inr False),
      Open = (\<lambda>_. None),
      File_Stat = (\<lambda>_. Inr 8),
      Copy = (\<lambda>_. (''abcdefgh'', None)),
      sha1_hex = (\<lambda>bytes. if bytes = ''abc'' then ''a9993e364706816aba3e25717850c26c9cd0d89d''
                           else if bytes = ''abcdefgh'' then ''425af12a0743502b322e93a015bcf868e324d56a''
                           else ''''),
      PathSeparator = CHR ''/''\<rparr>"

text \<open>The same directory when reading \<open>/w/out.bin\<close> fails after three bytes.\<close>

definition fs_short_read :: files where
  "fs_short_read =
     (directory [''/w/out.bin''])
       \<lparr>Copy := (\<lambda>_. (''abc'', Some ''read /w/out.bin: input/output error''))\<rparr>"

text \<open>The same directory when the match is a symbolic link to nothing: \<open>os.Stat\<close> fails.\<close>

definition fs_dangling :: files where
  "fs_dangling =
     (directory [''/w/out.bin''])
       \<lparr>Stat := (\<lambda>_. Inl ''stat /w/out.bin: no such file or directory'')\<rparr>"

definition uploader_bin :: ArtifactUploader where
  "uploader_bin = \<lparr>JobID = ''7'', Paths = ''out.bin'', Destination = ''''\<rparr>"

section \<open>Properties of the job engine\<close>

lemmas worlds = w_cancel_def w_broken_def w_deaf_def w_nolaunch_def mk_world_def three_ticks_def
  snapshot_def job7_def

lemmas run_simps = Run_def RunScript_def callback_def JobUpdate_def environ_def Let_def

lemma callback_ok:
  "client_Put w (puts s) ((job s)\<lparr>Output := Output_Process p\<rparr>) = (u, None) \<Longrightarrow>
   callback w s p =
     (if State u = ''canceled''
      then (Killed, (pushed s p)\<lparr>events := events (pushed s p) @
                      [EvLog (''Cancelling job #'' @ ID (job s)), EvKill]\<rparr>)
      else (Continue, pushed s p))"
  by (simp add: callback_def JobUpdate_def pushed_def)

lemma callback_failed:
  "client_Put w (puts s) ((job s)\<lparr>Output := Output_Process p\<rparr>) = (u, Some e) \<Longrightarrow>
   callback w s p =
     (FatalExit e, (pushed s p)\<lparr>events := events (pushed s p) @ [EvLogFatal e]\<rparr>)"
  by (simp add: callback_def JobUpdate_def pushed_def)

lemma Run_Launched:
  assumes "script w (path_Dir w b) (path_Base w b) (environ j) = Launched pr"
  shows "Run w j b =
           (case supervise w (launching w j b) pr of
              (Inl e, s) \<Rightarrow> (Fatal e, s)
            | (Inr p, s) \<Rightarrow> (Returned None, finalized w s (Output_Process p) p))"
  using assms
  by (simp add: Run_def RunScript_def JobUpdate_def launching_def finalized_def Let_def
      split: prod.splits sum.splits)

lemma Run_LaunchError:
  assumes "script w (path_Dir w b) (path_Base w b) (environ j) = LaunchError e h"
  shows "Run w j b =
           (case h of
              None \<Rightarrow> (Panic, (launching w j b)\<lparr>job := (job (launching w j b))
                                 \<lparr>Output := e, FinishedAt := time_Now w 1\<rparr>\<rparr>)
            | Some p \<Rightarrow> (Returned None, finalized w (launching w j b) e p))"
  using assms
  by (simp add: Run_def RunScript_def JobUpdate_def launching_def finalized_def Let_def
      split: option.splits)

lemma dec_digits_not_Nil: "dec_digits n \<noteq> []"
  by (subst dec_digits.simps) simp

lemma Sprintf_d_not_Nil: "Sprintf_d i \<noteq> []"
  by (simp add: Sprintf_d_def dec_digits_not_Nil)

lemma supervise_ID: "ID (job (snd (supervise w s pr))) = ID (job s)"
proof (induction pr arbitrary: s)
  case (Exits p)
  show ?case by simp
next
  case (Ticks p quiet killed)
  obtain u err where put: "client_Put w (puts s) ((job s)\<lparr>Output := Output_Process p\<rparr>) = (u, err)"
    by (cases "client_Put w (puts s) ((job s)\<lparr>Output := Output_Process p\<rparr>)")
  show ?case
  proof (cases err)
    case None
    with put Ticks show ?thesis
      by (simp add: callback_ok pushed_def)
  next
    case (Some e)
    with put show ?thesis
      by (simp add: callback_failed pushed_def)
  qed
qed

lemma supervise_events: "prefix (events s) (events (snd (supervise w s pr)))"
proof (induction pr arbitrary: s)
  case (Exits p)
  show ?case by simp
next
  case (Ticks p quiet killed)
  obtain u err where put: "client_Put w (puts s) ((job s)\<lparr>Output := Output_Process p\<rparr>) = (u, err)"
    by (cases "client_Put w (puts s) ((job s)\<lparr>Output := Output_Process p\<rparr>)")
  let ?k = "(pushed s p)\<lparr>events := events (pushed s p) @
              [EvLog (''Cancelling job #'' @ ID (job s)), EvKill]\<rparr>"
  have a: "prefix (events s) (events (pushed s p))" and b: "prefix (events s) (events ?k)"
    by (simp_all add: pushed_def)
  show ?case
  proof (cases err)
    case None
    show ?thesis
    proof (cases "State u = ''canceled''")
      case True
      with put None have eq: "supervise w s (Ticks p quiet killed) = supervise w ?k killed"
        by (simp add: callback_ok)
      have "prefix (events ?k) (events (snd (supervise w ?k killed)))"
        by (rule Ticks.IH(2))
      with b have "prefix (events s) (events (snd (supervise w ?k killed)))"
        by (rule prefix_order.trans)
      then show ?thesis
        by (simp only: eq)
    next
      case False
      with put None have eq: "supervise w s (Ticks p quiet killed) = supervise w (pushed s p) quiet"
        by (simp add: callback_ok)
      have "prefix (events (pushed s p)) (events (snd (supervise w (pushed s p) quiet)))"
        by (rule Ticks.IH(1))
      with a have "prefix (events s) (events (snd (supervise w (pushed s p) quiet)))"
        by (rule prefix_order.trans)
      then show ?thesis
        by (simp only: eq)
    qed
  next
    case (Some e)
    with put show ?thesis
      by (simp add: callback_failed pushed_def)
  qed
qed

text \<open>
  Claim C1. In the running phase, when the server's answer to the status push of a tick
  reports the state \<open>canceled\<close>, the callback calls \<open>Kill\<close> on the process within that same
  tick: the tick emits the push, the line \<open>Cancelling job\<close> and the kill, and the runner goes
  on with the future of the process after a kill. When the answer reports any other state the
  tick emits the push and nothing else, and the process goes on unkilled. In a run that
  returns, everything emitted while the process was supervised, every kill included, comes
  before the final update (the one that carries \<open>FinishedAt\<close>) and the line \<open>Finished job\<close>.
\<close>

theorem cancel_kills_within_tick:
  assumes "client_Put w (puts s) ((job s)\<lparr>Output := Output_Process p\<rparr>) = (updatedJob, None)"
  shows "(State updatedJob = ''canceled'' \<longrightarrow>
            callback w s p =
              (Killed, (pushed s p)\<lparr>events := events (pushed s p) @
                         [EvLog (''Cancelling job #'' @ ID (job s)), EvKill]\<rparr>) \<and>
            supervise w s (Ticks p quiet killed) =
              supervise w ((pushed s p)\<lparr>events := events (pushed s p) @
                         [EvLog (''Cancelling job #'' @ ID (job s)), EvKill]\<rparr>) killed) \<and>
         (State updatedJob \<noteq> ''canceled'' \<longrightarrow>
            callback w s p = (Continue, pushed s p) \<and>
            supervise w s (Ticks p quiet killed) = supervise w (pushed s p) quiet) \<and>
         (script w (path_Dir w b) (path_Base w b) (environ j) = Launched pr \<longrightarrow>
          supervise w (launching w j b) pr = (Inr q, s') \<longrightarrow>
            fst (Run w j b) = Returned None \<and>
            events (snd (Run w j b)) =
              events s' @ [EvJobUpdate (job (snd (Run w j b))),
                           EvLog (''Finished job #'' @ ID j)] \<and>
            FinishedAt (job (snd (Run w j b))) = time_Now w 1)"
proof (intro conjI impI)
  assume "State updatedJob = ''canceled''"
  with assms show "callback w s p =
      (Killed, (pushed s p)\<lparr>events := events (pushed s p) @
                 [EvLog (''Cancelling job #'' @ ID (job s)), EvKill]\<rparr>)"
    by (simp add: callback_ok)
  then show "supervise w s (Ticks p quiet killed) =
      supervise w ((pushed s p)\<lparr>events := events (pushed s p) @
                 [EvLog (''Cancelling job #'' @ ID (job s)), EvKill]\<rparr>) killed"
    by simp
next
  assume "State updatedJob \<noteq> ''canceled''"
  with assms show "callback w s p = (Continue, pushed s p)"
    by (simp add: callback_ok)
  then show "supervise w s (Ticks p quiet killed) = supervise w (pushed s p) quiet"
    by simp
next
  assume l: "script w (path_Dir w b) (path_Base w b) (environ j) = Launched pr"
    and r: "supervise w (launching w j b) pr = (Inr q, s')"
  have run: "Run w j b = (Returned None, finalized w s' (Output_Process q) q)"
    by (simp add: Run_Launched [OF l] r)
  show "fst (Run w j b) = Returned None"
    by (simp add: run)
  have "ID (job s') = ID j"
    using supervise_ID [of w "launching w j b" pr] r by (simp add: launching_def)
  then show "events (snd (Run w j b)) =
      events s' @ [EvJobUpdate (job (snd (Run w j b))), EvLog (''Finished job #'' @ ID j)]"
    by (simp add: run finalized_def)
  show "FinishedAt (job (snd (Run w j b))) = time_Now w 1"
    by (simp add: run finalized_def)
qed

theorem cancel_kills_within_tick_witness:
  "client_Put w_cancel 1 (job7\<lparr>StartedAt := ''2014-06-01T10:00:00Z'', Output := ''a''\<rparr>) =
     (job7\<lparr>StartedAt := ''2014-06-01T10:00:00Z'', Output := ''a''\<rparr>, None) \<and>
   callback w_cancel (launching w_cancel job7 ''/srv/agent/bootstrap.sh'') (snapshot ''a'' 0) =
     (Continue, pushed (launching w_cancel job7 ''/srv/agent/bootstrap.sh'') (snapshot ''a'' 0)) \<and>
   client_Put w_cancel 2 (job7\<lparr>StartedAt := ''2014-06-01T10:00:00Z'', Output := ''ab''\<rparr>) =
     (job7\<lparr>StartedAt := ''2014-06-01T10:00:00Z'', Output := ''ab'', State := ''canceled''\<rparr>,
      None) \<and>
   fst (callback w_cancel
          (pushed (launching w_cancel job7 ''/srv/agent/bootstrap.sh'') (snapshot ''a'' 0))
          (snapshot ''ab'' 0)) = Killed \<and>
   script w_cancel ''/srv/agent'' ''bootstrap.sh'' [''CI=true''] = Launched three_ticks \<and>
   fst (supervise w_cancel (launching w_cancel job7 ''/srv/agent/bootstrap.sh'') three_ticks) =
     Inr (snapshot ''ab'' (- 1)) \<and>
   map (\<lambda>e. e = EvKill) (events (snd (Run w_cancel job7 ''/srv/agent/bootstrap.sh''))) =
     [False, False, False, False, False, False, True, False, False]"
  using
    cancel_kills_within_tick [of w_cancel "launching w_cancel job7 ''/srv/agent/bootstrap.sh''"
      "snapshot ''a'' 0" "job7\<lparr>StartedAt := ''2014-06-01T10:00:00Z'', Output := ''a''\<rparr>"
      "Exits (snapshot ''a'' 0)" "Exits (snapshot ''a'' 0)" "''/srv/agent/bootstrap.sh''" job7
      three_ticks "snapshot ''ab'' (- 1)"
      "snd (supervise w_cancel (launching w_cancel job7 ''/srv/agent/bootstrap.sh'') three_ticks)"]
    cancel_kills_within_tick [of w_cancel
      "pushed (launching w_cancel job7 ''/srv/agent/bootstrap.sh'') (snapshot ''a'' 0)"
      "snapshot ''ab'' 0"
      "job7\<lparr>StartedAt := ''2014-06-01T10:00:00Z'', Output := ''ab'', State := ''canceled''\<rparr>"
      "Exits (snapshot ''a'' 0)" "Exits (snapshot ''a'' 0)" "''/srv/agent/bootstrap.sh''" job7
      three_ticks "snapshot ''ab'' (- 1)"
      "snd (supervise w_cancel (launching w_cancel job7 ''/srv/agent/bootstrap.sh'') three_ticks)"]
  by (simp add: worlds run_simps launching_def pushed_def)

text \<open>
  Claim C7. In the running phase a failed status push is fatal to the agent process: the
  callback logs the error with \<open>log.Fatal\<close>, which exits; supervision stops at that tick
  whatever the process would have done next, with no kill and no further push; and \<open>Run\<close>
  ends in that exit, in the very state of the failed tick: no output is recorded, nothing is
  finalized, no final update is sent.
\<close>

theorem running_push_failure_is_fatal:
  assumes "client_Put w (puts s) ((job s)\<lparr>Output := Output_Process p\<rparr>) = (updatedJob, Some e)"
  shows "callback w s p =
           (FatalExit e, (pushed s p)\<lparr>events := events (pushed s p) @ [EvLogFatal e]\<rparr>) \<and>
         supervise w s (Ticks p quiet killed) =
           (Inl e, (pushed s p)\<lparr>events := events (pushed s p) @ [EvLogFatal e]\<rparr>) \<and>
         (script w (path_Dir w b) (path_Base w b) (environ j) = Launched pr \<longrightarrow>
          supervise w (launching w j b) pr = (Inl e', s') \<longrightarrow>
            Run w j b = (Fatal e', s'))"
proof (intro conjI impI)
  from assms show c: "callback w s p =
      (FatalExit e, (pushed s p)\<lparr>events := events (pushed s p) @ [EvLogFatal e]\<rparr>)"
    by (rule callback_failed)
  then show "supervise w s (Ticks p quiet killed) =
      (Inl e, (pushed s p)\<lparr>events := events (pushed s p) @ [EvLogFatal e]\<rparr>)"
    by simp
next
  assume l: "script w (path_Dir w b) (path_Base w b) (environ j) = Launched pr"
    and r: "supervise w (launching w j b) pr = (Inl e', s')"
  show "Run w j b = (Fatal e', s')"
    by (simp add: Run_Launched [OF l] r)
qed

theorem running_push_failure_is_fatal_witness:
  "client_Put w_broken 2
     (job7\<lparr>StartedAt := ''2014-06-01T10:00:00Z'', Output := ''ab''\<rparr>) =
     (job7\<lparr>StartedAt := ''2014-06-01T10:00:00Z'', Output := ''ab''\<rparr>,
      Some ''connection refused'') \<and>
   fst (callback w_broken
          (pushed (launching w_broken job7 ''/srv/agent/bootstrap.sh'') (snapshot ''a'' 0))
          (snapshot ''ab'' 0)) = FatalExit ''connection refused'' \<and>
   script w_broken ''/srv/agent'' ''bootstrap.sh'' [''CI=true''] = Launched three_ticks \<and>
   fst (supervise w_broken (launching w_broken job7 ''/srv/agent/bootstrap.sh'') three_ticks) =
     Inl ''connection refused'' \<and>
   Run w_broken job7 ''/srv/agent/bootstrap.sh'' =
     (Fatal ''connection refused'',
      snd (supervise w_broken (launching w_broken job7 ''/srv/agent/bootstrap.sh'') three_ticks)) \<and>
   last (events (snd (Run w_broken job7 ''/srv/agent/bootstrap.sh''))) =
     EvLogFatal ''connection refused''"
  using running_push_failure_is_fatal [of w_broken
      "pushed (launching w_broken job7 ''/srv/agent/bootstrap.sh'') (snapshot ''a'' 0)"
      "snapshot ''ab'' 0"
      "job7\<lparr>StartedAt := ''2014-06-01T10:00:00Z'', Output := ''ab''\<rparr>"
      "''connection refused''"
      "Exits (snapshot ''a'' 0)" "Exits (snapshot ''a'' 0)" "''/srv/agent/bootstrap.sh''" job7
      three_ticks "''connection refused''"
      "snd (supervise w_broken (launching w_broken job7 ''/srv/agent/bootstrap.sh'') three_ticks)"]
  by (simp add: worlds run_simps launching_def pushed_def)

lemma callback_client_cong:
  assumes "c (puts s) = client_Put w (puts s)"
  shows "callback (w\<lparr>client_Put := c\<rparr>) s p = callback w s p"
  using assms by (simp add: callback_def JobUpdate_def)

lemma callback_puts: "puts (snd (callback w s p)) = Suc (puts s)"
  by (simp add: callback_def JobUpdate_def split: prod.splits option.splits)

lemma supervise_client_cong:
  assumes "\<forall>n. puts s \<le> n \<longrightarrow> c n = client_Put w n"
  shows "supervise (w\<lparr>client_Put := c\<rparr>) s pr = supervise w s pr"
  using assms
proof (induction pr arbitrary: s)
  case (Exits p)
  show ?case by simp
next
  case (Ticks p quiet killed)
  have cb: "callback (w\<lparr>client_Put := c\<rparr>) s p = callback w s p"
    using Ticks.prems by (simp add: callback_client_cong)
  obtain t s' where r: "callback w s p = (t, s')"
    by (cases "callback w s p")
  have "puts s' = Suc (puts s)"
    using callback_puts [of w s p] r by simp
  with Ticks.prems have later: "\<forall>n. puts s' \<le> n \<longrightarrow> c n = client_Put w n"
    by simp
  show ?case
    using cb r Ticks.IH(1) [OF later] Ticks.IH(2) [OF later]
    by (cases t) simp_all
qed

lemma Run_events_start:
  "take 3 (events (snd (Run w j b))) = events (launching w j b)"
proof (cases "script w (path_Dir w b) (path_Base w b) (environ j)")
  case (LaunchError e h)
  then show ?thesis
    by (cases h) (simp_all add: Run_LaunchError finalized_def launching_def)
next
  case (Launched pr)
  obtain r s where sup: "supervise w (launching w j b) pr = (r, s)"
    by (cases "supervise w (launching w j b) pr")
  have "prefix (events (launching w j b)) (events s)"
    using supervise_events [of "launching w j b" w pr] sup by simp
  then obtain more where ev: "events s = events (launching w j b) @ more"
    by (auto simp add: prefix_def)
  have len: "length (events (launching w j b)) = 3"
    by (simp add: launching_def)
  show ?thesis
    using sup ev len
    by (cases r) (simp_all add: Run_Launched [OF Launched] finalized_def)
qed

text \<open>
  Claim C8, as the code has it. The push that reports \<open>StartedAt\<close> is fire-and-forget: its
  answer, value and error alike, is dropped. Whatever the client answers, the run begins with
  the line \<open>Starting job\<close>, the push of the job stamped with \<open>StartedAt\<close>, and the call of
  \<open>RunScript\<close>; and replacing the answer to that first push by any other answer changes
  nothing in the run, neither how it ends nor what it emits. In particular a failure of that
  push aborts nothing and adds no log line.
\<close>

theorem started_push_answer_is_dropped:
  "take 3 (events (snd (Run w j b))) =
     [EvLog (''Starting job #'' @ ID j),
      EvJobUpdate (j\<lparr>StartedAt := time_Now w 0\<rparr>),
      EvRunScript (path_Dir w b) (path_Base w b) (environ j)] \<and>
   Run (w\<lparr>client_Put := (client_Put w)(0 := answer)\<rparr>) j b = Run w j b"
proof
  show "take 3 (events (snd (Run w j b))) =
     [EvLog (''Starting job #'' @ ID j),
      EvJobUpdate (j\<lparr>StartedAt := time_Now w 0\<rparr>),
      EvRunScript (path_Dir w b) (path_Base w b) (environ j)]"
    by (simp add: Run_events_start launching_def)
  have "RunScript (w\<lparr>client_Put := (client_Put w)(0 := answer)\<rparr>) s d n e = RunScript w s d n e"
    if "puts s = Suc 0" for s d n e
  proof -
    have "\<forall>k. puts (s\<lparr>events := events s @ [EvRunScript d n e]\<rparr>) \<le> k \<longrightarrow>
            ((client_Put w)(0 := answer)) k = client_Put w k"
      using that by simp
    then have "supervise (w\<lparr>client_Put := (client_Put w)(0 := answer)\<rparr>)
                 (s\<lparr>events := events s @ [EvRunScript d n e]\<rparr>) pr =
               supervise w (s\<lparr>events := events s @ [EvRunScript d n e]\<rparr>) pr" for pr
      by (rule supervise_client_cong)
    then show ?thesis
      by (simp add: RunScript_def Let_def split: launch.splits)
  qed
  then show "Run (w\<lparr>client_Put := (client_Put w)(0 := answer)\<rparr>) j b = Run w j b"
    by (simp add: Run_def JobUpdate_def Let_def split: prod.splits sum.splits option.splits)
qed

theorem started_push_answer_is_dropped_witness:
  "snd (client_Put w_deaf 0 (job7\<lparr>StartedAt := ''2014-06-01T10:00:00Z''\<rparr>)) =
     Some ''connection refused'' \<and>
   take 3 (events (snd (Run w_deaf job7 ''/srv/agent/bootstrap.sh''))) =
     [EvLog ''Starting job #7'',
      EvJobUpdate (job7\<lparr>StartedAt := ''2014-06-01T10:00:00Z''\<rparr>),
      EvRunScript ''/srv/agent'' ''bootstrap.sh'' [''CI=true'']] \<and>
   Run (w_deaf\<lparr>client_Put := (client_Put w_deaf)(0 := \<lambda>j. (j, None))\<rparr>) job7
     ''/srv/agent/bootstrap.sh'' =
   Run w_deaf job7 ''/srv/agent/bootstrap.sh''"
  using started_push_answer_is_dropped [of w_deaf job7 "''/srv/agent/bootstrap.sh''"
      "\<lambda>j. (j, None)"]
  by (simp add: worlds environ_def)

text \<open>
  Claim C8 as stated says that a failure of this push is logged. In a run where the first push
  fails with \<open>connection refused\<close>, these are all the events: the only lines logged are
  \<open>Starting job #7\<close> and \<open>Finished job #7\<close>.
\<close>

theorem started_push_failure_not_logged:
  "snd (client_Put w_deaf 0 (job7\<lparr>StartedAt := ''2014-06-01T10:00:00Z''\<rparr>)) =
     Some ''connection refused'' \<and>
   fst (Run w_deaf job7 ''/srv/agent/bootstrap.sh'') = Returned None \<and>
   events (snd (Run w_deaf job7 ''/srv/agent/bootstrap.sh'')) =
     [EvLog ''Starting job #7'',
      EvJobUpdate (job7\<lparr>StartedAt := ''2014-06-01T10:00:00Z''\<rparr>),
      EvRunScript ''/srv/agent'' ''bootstrap.sh'' [''CI=true''],
      EvJobUpdate (job7\<lparr>StartedAt := ''2014-06-01T10:00:00Z'', Output := ''ok'',
                         FinishedAt := ''2014-06-01T10:00:03Z'', ExitStatus := ''0''\<rparr>),
      EvLog ''Finished job #7'']"
  by (simp add: worlds run_simps Sprintf_d_def dec_digits.simps)

text \<open>
  Claim C9, as the code has it. \<open>Run\<close> never returns an error: whenever it returns, it
  returns nil, after a launch failure and after a killed process as well as after a
  successful run. It returns in every run but two kinds: a run in which a status push of the
  running phase fails (\<open>log.Fatal\<close> exits the agent inside the callback), and a run in
  which \<open>RunScript\<close> hands back a nil process beside its launch error (the read of
  \<open>process.ExitStatus\<close> is a nil dereference).
\<close>

theorem Run_returns_nil_unless_it_exits:
  "(\<forall>e. fst (Run w j b) \<noteq> Returned (Some e)) \<and>
   fst (Run w j b) =
     (case script w (path_Dir w b) (path_Base w b) (environ j) of
        LaunchError e handle \<Rightarrow> (case handle of None \<Rightarrow> Panic | Some p \<Rightarrow> Returned None)
      | Launched pr \<Rightarrow>
          (case fst (supervise w (launching w j b) pr) of
             Inl e \<Rightarrow> Fatal e
           | Inr p \<Rightarrow> Returned None))"
proof -
  have eq: "fst (Run w j b) =
     (case script w (path_Dir w b) (path_Base w b) (environ j) of
        LaunchError e handle \<Rightarrow> (case handle of None \<Rightarrow> Panic | Some p \<Rightarrow> Returned None)
      | Launched pr \<Rightarrow>
          (case fst (supervise w (launching w j b) pr) of
             Inl e \<Rightarrow> Fatal e
           | Inr p \<Rightarrow> Returned None))"
  proof (cases "script w (path_Dir w b) (path_Base w b) (environ j)")
    case (LaunchError e h)
    then show ?thesis
      by (simp add: Run_LaunchError split: option.splits)
  next
    case (Launched pr)
    then show ?thesis
      by (simp add: Run_Launched split: prod.splits sum.splits)
  qed
  have "fst (Run w j b) \<noteq> Returned (Some e)" for e
    by (simp add: eq split: launch.splits option.splits sum.splits)
  with eq show ?thesis
    by blast
qed

theorem Run_returns_nil_unless_it_exits_witness:
  "fst (Run w_cancel job7 ''/srv/agent/bootstrap.sh'') = Returned None \<and>
   fst (Run w_nolaunch job7 ''/srv/agent/bootstrap.sh'') = Returned None \<and>
   fst (Run w_deaf job7 ''/srv/agent/bootstrap.sh'') = Returned None"
  using Run_returns_nil_unless_it_exits [of w_cancel job7 "''/srv/agent/bootstrap.sh''"]
    Run_returns_nil_unless_it_exits [of w_nolaunch job7 "''/srv/agent/bootstrap.sh''"]
    Run_returns_nil_unless_it_exits [of w_deaf job7 "''/srv/agent/bootstrap.sh''"]
  by (simp add: worlds run_simps launching_def)

text \<open>
  Claim C9 as stated says that \<open>Run\<close> returns nil for every client. With a client whose
  answer to the second tick is an error, \<open>Run\<close> does not return: the agent exits.
\<close>

theorem Run_exits_on_broken_channel:
  "fst (Run w_broken job7 ''/srv/agent/bootstrap.sh'') = Fatal ''connection refused'' \<and>
   fst (Run w_broken job7 ''/srv/agent/bootstrap.sh'') \<noteq> Returned None"
  by (simp add: worlds run_simps)

text \<open>
  Claim C4, as the code has it. When the script cannot be launched and \<open>RunScript\<close> hands
  back a process beside the error, \<open>Run\<close> still finalizes and returns nil: \<open>Output\<close> is the
  description of the launch error, \<open>FinishedAt\<close> is stamped, \<open>ExitStatus\<close> is the decimal
  rendering of the exit status of the process handed back (never the empty string), and
  the final update carrying all three is pushed, followed by the line \<open>Finished job\<close>.
\<close>

theorem launch_failure_finalizes_with_exit_status:
  assumes "script w (path_Dir w b) (path_Base w b) (environ j) = LaunchError e (Some p)"
  shows "Run w j b =
           (Returned None,
            \<lparr>job = j\<lparr>StartedAt := time_Now w 0, Output := e, FinishedAt := time_Now w 1,
                      ExitStatus := Sprintf_d (ExitStatus_Process p)\<rparr>,
             puts = 2,
             events =
               [EvLog (''Starting job #'' @ ID j),
                EvJobUpdate (j\<lparr>StartedAt := time_Now w 0\<rparr>),
                EvRunScript (path_Dir w b) (path_Base w b) (environ j),
                EvJobUpdate (j\<lparr>StartedAt := time_Now w 0, Output := e,
                                FinishedAt := time_Now w 1,
                                ExitStatus := Sprintf_d (ExitStatus_Process p)\<rparr>),
                EvLog (''Finished job #'' @ ID j)]\<rparr>) \<and>
         ExitStatus (job (snd (Run w j b))) \<noteq> ''''"
  by (simp add: Run_LaunchError [OF assms] finalized_def launching_def Sprintf_d_not_Nil)

theorem launch_failure_finalizes_with_exit_status_witness:
  "script w_nolaunch (path_Dir w_nolaunch ''/srv/agent/bootstrap.sh'')
     (path_Base w_nolaunch ''/srv/agent/bootstrap.sh'') (environ job7) =
     LaunchError ''fork/exec /srv/agent/bootstrap.sh: permission denied''
       (Some (snapshot '''' 0)) \<and>
   fst (Run w_nolaunch job7 ''/srv/agent/bootstrap.sh'') = Returned None \<and>
   job (snd (Run w_nolaunch job7 ''/srv/agent/bootstrap.sh'')) =
     job7\<lparr>StartedAt := ''2014-06-01T10:00:00Z'',
          Output := ''fork/exec /srv/agent/bootstrap.sh: permission denied'',
          FinishedAt := ''2014-06-01T10:00:03Z'', ExitStatus := ''0''\<rparr> \<and>
   last (butlast (events (snd (Run w_nolaunch job7 ''/srv/agent/bootstrap.sh'')))) =
     EvJobUpdate (job (snd (Run w_nolaunch job7 ''/srv/agent/bootstrap.sh'')))"
  using launch_failure_finalizes_with_exit_status [of w_nolaunch "''/srv/agent/bootstrap.sh''"
      job7 "''fork/exec /srv/agent/bootstrap.sh: permission denied''" "snapshot '''' 0"]
  by (simp add: worlds environ_def Sprintf_d_def dec_digits.simps)

text \<open>
  Claim C4 as stated says that no exit status is recorded after a launch failure. The
  assignment of \<open>ExitStatus\<close> stands after the \<open>if\<close>, on both paths: with a process of
  zero values handed back, the job ends with \<open>ExitStatus = "0"\<close>, which is not absent.
\<close>

theorem launch_failure_records_exit_status:
  "script w_nolaunch (path_Dir w_nolaunch ''/srv/agent/bootstrap.sh'')
     (path_Base w_nolaunch ''/srv/agent/bootstrap.sh'') (environ job7) =
     LaunchError ''fork/exec /srv/agent/bootstrap.sh: permission denied''
       (Some (snapshot '''' 0)) \<and>
   ExitStatus (job (snd (Run w_nolaunch job7 ''/srv/agent/bootstrap.sh''))) = ''0'' \<and>
   ExitStatus (job (snd (Run w_nolaunch job7 ''/srv/agent/bootstrap.sh''))) \<noteq> ''''"
  by (simp add: worlds run_simps Sprintf_d_def dec_digits.simps)

section \<open>Properties of the artifact uploader\<close>

lemmas collect_simps = collect_def build_def TrimSpace_def trim_head.simps leading_def
  white_space_def TrimPrefix_def Let_def

lemmas uploader_inputs = uploader_s3_def uploader_form_def uploader_ftp_def uploader_bin_def
  log_file_def three_logs_def twice_def sv_one_fails_def sv_racing_def sv_conflict_def
  sv_unregistered_def directory_def fs_short_read_def fs_dangling_def

lemma uploads_in_snoc: "uploads_in (tr @ [x]) = uploads_in tr @ uploads_in [x]"
  by (induction tr rule: uploads_in.induct) simp_all

lemma updates_in_snoc: "updates_in (tr @ [x]) = updates_in tr @ updates_in [x]"
  by (induction tr rule: updates_in.induct) simp_all

lemma appends_in_snoc: "appends_in (tr @ [x]) = appends_in tr @ appends_in [x]"
  by (induction tr rule: appends_in.induct) simp_all

lemma attempts_snoc: "attempts (tr @ [x]) i = attempts tr i @ attempts [x] i"
  by (induction tr i rule: attempts.induct) simp_all

lemma pushes_snoc: "pushes (tr @ [x]) i = pushes tr i @ pushes [x] i"
  by (induction tr i rule: pushes.induct) simp_all

lemma recorded_snoc: "recorded (tr @ [x]) i = recorded tr i @ recorded [x] i"
  by (induction tr i rule: recorded.induct) simp_all

lemma lock_run_snoc:
  "lock_run h (tr @ [x]) = (case lock_run h tr of None \<Rightarrow> None | Some h' \<Rightarrow> lock_run h' [x])"
  by (induction h tr rule: lock_run.induct) simp_all

lemma task_ok_other:
  assumes "task_ok i x0 t tr" and "attempts [x] i = []" and "pushes [x] i = []"
    and "recorded [x] i = []"
  shows "task_ok i x0 t (tr @ [x])"
  using assms
  by (simp add: task_ok_def attempts_snoc pushes_snoc recorded_snoc split: pc.splits)

lemma pool_ok_step:
  assumes ok: "pool_ok arts p"
    and sp: "spawned p' = (spawned p)[i := t']" and i: "i < length (spawned p)"
    and wa: "waiting p' = waiting p"
    and tr: "trace (shared p') = trace (shared p) @ [x]"
    and er: "errors (shared p') = errors (shared p) @ appends_in [x]"
    and mine: "task_ok i (arts ! i) t' (trace (shared p) @ [x])"
    and others: "\<And>j. j \<noteq> i \<Longrightarrow> attempts [x] j = [] \<and> pushes [x] j = [] \<and> recorded [x] j = []"
    and x: "x \<noteq> Wait" "x \<noteq> Spawn"
    and lock: "lock_run (holder p) [x] = Some (holder p')"
    and hold: "holds (counter t') \<longleftrightarrow> holder p' = Some i"
    and change: "holder p' = holder p \<or> (holder p = None \<and> holder p' = Some i) \<or>
                 (holder p = Some i \<and> holder p' = None)"
  shows "pool_ok arts p'"
proof -
  have len: "length (spawned p') = length (spawned p)"
    by (simp add: sp)
  have a: "waiting p' = drop (length (spawned p')) arts" "length (spawned p') \<le> length arts"
    using ok by (simp_all add: pool_ok_def len wa)
  have b: "task_ok j (arts ! j) (spawned p' ! j) (trace (shared p')) \<and>
           (holds (counter (spawned p' ! j)) \<longleftrightarrow> holder p' = Some j)"
    if j: "j < length (spawned p')" for j
  proof (cases "j = i")
    case True
    with mine hold i show ?thesis
      by (simp add: sp tr)
  next
    case False
    from ok j have old: "task_ok j (arts ! j) (spawned p ! j) (trace (shared p))"
      and h: "holds (counter (spawned p ! j)) \<longleftrightarrow> holder p = Some j"
      by (simp_all add: pool_ok_def len)
    from old others [OF False] have "task_ok j (arts ! j) (spawned p ! j) (trace (shared p) @ [x])"
      by (simp add: task_ok_other)
    moreover from h change False have "holds (counter (spawned p ! j)) \<longleftrightarrow> holder p' = Some j"
      by auto
    ultimately show ?thesis
      using False by (simp add: sp tr)
  qed
  have c: "attempts (trace (shared p')) j = [] \<and> pushes (trace (shared p')) j = [] \<and>
           recorded (trace (shared p')) j = [] \<and> holder p' \<noteq> Some j"
    if j: "length (spawned p') \<le> j" for j
  proof -
    from j i have ne: "j \<noteq> i"
      by (simp add: len)
    from ok j have "attempts (trace (shared p)) j = [] \<and> pushes (trace (shared p)) j = [] \<and>
        recorded (trace (shared p)) j = [] \<and> holder p \<noteq> Some j"
      by (simp add: pool_ok_def len)
    with others [OF ne] change ne show ?thesis
      by (auto simp add: tr attempts_snoc pushes_snoc recorded_snoc)
  qed
  have d: "errors (shared p') = appends_in (trace (shared p'))"
    using ok by (simp add: pool_ok_def er tr appends_in_snoc)
  have e: "lock_run None (trace (shared p')) = Some (holder p')"
    using ok lock by (simp add: pool_ok_def tr lock_run_snoc)
  have f: "Wait \<notin> set (trace (shared p'))"
    using ok x by (auto simp add: pool_ok_def tr)
  have g: "length (filter (\<lambda>x. x = Spawn) (trace (shared p'))) = length (spawned p')"
    using ok x by (simp add: pool_ok_def tr len)
  from a b c d e f g show ?thesis
    unfolding pool_ok_def by blast
qed

lemma main_step_ok:
  assumes ok: "pool_ok arts p"
  shows "pool_ok arts (main_step p)"
proof (cases "waiting p")
  case Nil
  with assms show ?thesis
    by (simp add: main_step_def)
next
  case (Cons x rest)
  let ?n = "length (spawned p)"
  let ?tr = "trace (shared p)"
  let ?p = "p\<lparr>spawned := spawned p @ [\<lparr>held = x, counter = AtInfo\<rparr>], waiting := rest,
              shared := say Spawn (shared p)\<rparr>"
  from ok Cons have w: "drop ?n arts = x # rest"
    by (simp add: pool_ok_def)
  then have lt: "?n < length arts"
    by (cases "?n < length arts") simp_all
  from w lt have x: "arts ! ?n = x" and rest: "drop (Suc ?n) arts = rest"
    by (simp_all add: Cons_nth_drop_Suc [symmetric])
  have step: "main_step p = ?p"
    by (simp add: main_step_def Cons)
  have a: "waiting ?p = drop (length (spawned ?p)) arts" "length (spawned ?p) \<le> length arts"
    using lt rest by simp_all
  have fresh: "attempts ?tr j = [] \<and> pushes ?tr j = [] \<and> recorded ?tr j = [] \<and> holder p \<noteq> Some j"
    if "?n \<le> j" for j
    using ok that by (simp add: pool_ok_def)
  have b: "task_ok j (arts ! j) (spawned ?p ! j) (trace (shared ?p)) \<and>
           (holds (counter (spawned ?p ! j)) \<longleftrightarrow> holder ?p = Some j)"
    if j: "j < length (spawned ?p)" for j
  proof (cases "j < ?n")
    case True
    from ok True have "task_ok j (arts ! j) (spawned p ! j) ?tr"
      and "holds (counter (spawned p ! j)) \<longleftrightarrow> holder p = Some j"
      by (simp_all add: pool_ok_def)
    with True show ?thesis
      by (simp add: nth_append say_def task_ok_other)
  next
    case False
    with j have eq: "j = ?n"
      by simp
    from fresh [of ?n] show ?thesis
      by (simp add: eq x say_def task_ok_def attempts_snoc pushes_snoc recorded_snoc)
  qed
  have c: "attempts (trace (shared ?p)) j = [] \<and> pushes (trace (shared ?p)) j = [] \<and>
           recorded (trace (shared ?p)) j = [] \<and> holder ?p \<noteq> Some j"
    if "length (spawned ?p) \<le> j" for j
    using fresh [of j] that
    by (simp add: say_def attempts_snoc pushes_snoc recorded_snoc)
  have d: "errors (shared ?p) = appends_in (trace (shared ?p))"
    using ok by (simp add: pool_ok_def say_def appends_in_snoc)
  have e: "lock_run None (trace (shared ?p)) = Some (holder ?p)"
    using ok by (simp add: pool_ok_def say_def lock_run_snoc)
  have f: "Wait \<notin> set (trace (shared ?p))"
    using ok by (simp add: pool_ok_def say_def)
  have g: "length (filter (\<lambda>x. x = Spawn) (trace (shared ?p))) = length (spawned ?p)"
    using ok by (simp add: pool_ok_def say_def)
  from a b c d e f g show ?thesis
    unfolding step pool_ok_def by blast
qed

lemmas step_simps = task_step_def move_def say_def Let_def task_ok_def attempts_snoc
  pushes_snoc recorded_snoc verdict_def error_of_def

lemma task_step_ok:
  assumes ok: "pool_ok arts p"
  shows "pool_ok arts (task_step sv up d i p)"
proof (cases "i < length (spawned p)")
  case False
  with ok show ?thesis
    by (simp add: task_step_def)
next
  case True
  let ?t = "spawned p ! i"
  let ?p' = "task_step sv up d i p"
  from ok True have tok: "task_ok i (arts ! i) ?t (trace (shared p))"
    and hold: "holds (counter ?t) \<longleftrightarrow> holder p = Some i"
    by (simp_all add: pool_ok_def)
  note step = pool_ok_step [OF ok, where i = i and p' = ?p' and t' = "spawned ?p' ! i"
      and x = "last (trace (shared ?p'))"]
  show ?thesis
  proof (cases "counter ?t")
    case AtInfo
    with True tok hold show ?thesis
      by (intro step) (auto simp add: step_simps)
  next
    case AtUpload
    with True tok hold show ?thesis
      by (intro step) (auto simp add: step_simps split: option.splits)
  next
    case (AtError1 e)
    with True tok hold show ?thesis
      by (intro step) (auto simp add: step_simps)
  next
    case (AtLock1 e)
    show ?thesis
    proof (cases "holder p")
      case None
      with AtLock1 True tok hold show ?thesis
        by (intro step) (auto simp add: step_simps)
    next
      case (Some other)
      with AtLock1 True ok show ?thesis
        by (simp add: task_step_def)
    qed
  next
    case (AtAppend1 e)
    with True tok hold show ?thesis
      by (intro step) (auto simp add: step_simps)
  next
    case AtUnlock1
    with True tok hold show ?thesis
      by (intro step) (auto simp add: step_simps)
  next
    case AtUpdate
    with True tok hold show ?thesis
      by (intro step) (auto simp add: step_simps split: option.splits)
  next
    case (AtError2 e)
    with True tok hold show ?thesis
      by (intro step) (auto simp add: step_simps)
  next
    case (AtLock2 e)
    show ?thesis
    proof (cases "holder p")
      case None
      with AtLock2 True tok hold show ?thesis
        by (intro step) (auto simp add: step_simps)
    next
      case (Some other)
      with AtLock2 True ok show ?thesis
        by (simp add: task_step_def)
    qed
  next
    case (AtAppend2 e)
    with True tok hold show ?thesis
      by (intro step) (auto simp add: step_simps)
  next
    case AtUnlock2
    with True tok hold show ?thesis
      by (intro step) (auto simp add: step_simps)
  next
    case AtEnd
    with True ok show ?thesis
      by (simp add: task_step_def)
  qed
qed

lemma take_turn_ok: "pool_ok arts p \<Longrightarrow> pool_ok arts (take_turn sv up d p t)"
  by (cases t) (simp_all add: main_step_ok task_step_ok)

lemma run_turns_Nil [simp]: "run_turns sv up d [] p = p"
  by (simp add: run_turns_def)

lemma run_turns_Cons [simp]:
  "run_turns sv up d (t # turns) p = run_turns sv up d turns (take_turn sv up d p t)"
  by (simp add: run_turns_def)

lemma run_turns_append:
  "run_turns sv up d (xs @ ys) p = run_turns sv up d ys (run_turns sv up d xs p)"
  by (simp add: run_turns_def)

lemma run_turns_ok: "pool_ok arts p \<Longrightarrow> pool_ok arts (run_turns sv up d turns p)"
  by (induction turns arbitrary: p) (simp_all add: take_turn_ok)

lemma task_step_trace: "prefix (trace (shared p)) (trace (shared (task_step sv up d i p)))"
  by (simp add: task_step_def move_def say_def Let_def split: pc.splits option.splits)

lemma take_turn_trace: "prefix (trace (shared p)) (trace (shared (take_turn sv up d p t)))"
  by (cases t) (simp_all add: task_step_trace main_step_def say_def split: list.splits)

lemma run_turns_trace: "prefix (trace (shared p)) (trace (shared (run_turns sv up d turns p)))"
proof (induction turns arbitrary: p)
  case Nil
  show ?case by simp
next
  case (Cons t turns)
  have "prefix (trace (shared p)) (trace (shared (take_turn sv up d p t)))"
    by (rule take_turn_trace)
  also have "prefix \<dots> (trace (shared (run_turns sv up d turns (take_turn sv up d p t))))"
    by (rule Cons.IH)
  finally show ?case
    by simp
qed

lemma task_step_progress:
  assumes ok: "pool_ok arts p" and i: "i < length (spawned p)"
    and free: "holder p = None \<or> holder p = Some i"
  shows "rank (counter (spawned (task_step sv up d i p) ! i)) \<le>
           rank (counter (spawned p ! i)) - 1"
    and "holder (task_step sv up d i p) = None \<or> holder (task_step sv up d i p) = Some i"
    and "length (spawned (task_step sv up d i p)) = length (spawned p)"
    and "waiting (task_step sv up d i p) = waiting p"
    and "\<And>j. j \<noteq> i \<Longrightarrow> spawned (task_step sv up d i p) ! j = spawned p ! j"
proof -
  from ok i have hold: "holds (counter (spawned p ! i)) \<longleftrightarrow> holder p = Some i"
    by (simp add: pool_ok_def)
  show "rank (counter (spawned (task_step sv up d i p) ! i)) \<le> rank (counter (spawned p ! i)) - 1"
    using i free hold
    by (cases "counter (spawned p ! i)")
      (auto simp add: task_step_def move_def Let_def split: option.splits)
  show "holder (task_step sv up d i p) = None \<or> holder (task_step sv up d i p) = Some i"
    using i free
    by (cases "counter (spawned p ! i)")
      (auto simp add: task_step_def move_def Let_def split: option.splits)
  show "length (spawned (task_step sv up d i p)) = length (spawned p)"
    by (cases "counter (spawned p ! i)")
      (auto simp add: task_step_def move_def Let_def split: option.splits)
  show "waiting (task_step sv up d i p) = waiting p"
    by (cases "counter (spawned p ! i)")
      (auto simp add: task_step_def move_def Let_def split: option.splits)
  show "spawned (task_step sv up d i p) ! j = spawned p ! j" if "j \<noteq> i" for j
    using that
    by (cases "counter (spawned p ! i)")
      (auto simp add: task_step_def move_def Let_def split: option.splits)
qed

lemma rank_0: "rank c = 0 \<longleftrightarrow> c = AtEnd"
  by (cases c) simp_all

lemma run_task_to_end:
  assumes "pool_ok arts p" and "i < length (spawned p)"
    and "holder p = None \<or> holder p = Some i"
    and "rank (counter (spawned p ! i)) \<le> k"
  shows "counter (spawned (run_turns sv up d (replicate k (Task i)) p) ! i) = AtEnd \<and>
         holder (run_turns sv up d (replicate k (Task i)) p) = None \<and>
         pool_ok arts (run_turns sv up d (replicate k (Task i)) p) \<and>
         length (spawned (run_turns sv up d (replicate k (Task i)) p)) = length (spawned p) \<and>
         waiting (run_turns sv up d (replicate k (Task i)) p) = waiting p \<and>
         (\<forall>j. j \<noteq> i \<longrightarrow> spawned (run_turns sv up d (replicate k (Task i)) p) ! j = spawned p ! j)"
  using assms
proof (induction k arbitrary: p)
  case 0
  then have e: "counter (spawned p ! i) = AtEnd"
    by (simp add: rank_0)
  from "0.prems"(1,2) have "holds (counter (spawned p ! i)) \<longleftrightarrow> holder p = Some i"
    by (simp add: pool_ok_def)
  with e "0.prems"(3) have "holder p = None"
    by auto
  with e "0.prems" show ?case
    by simp
next
  case (Suc k)
  let ?p = "task_step sv up d i p"
  note pr = task_step_progress [OF Suc.prems(1,2,3), where sv = sv and up = up and d = d]
  have ok: "pool_ok arts ?p"
    using Suc.prems(1) by (rule task_step_ok)
  have i: "i < length (spawned ?p)"
    using Suc.prems(2) pr(3) by simp
  have r: "rank (counter (spawned ?p ! i)) \<le> k"
    using Suc.prems(4) pr(1) by simp
  from Suc.IH [OF ok i pr(2) r] pr(3,4,5) show ?case
    by simp
qed

lemma spawn_the_rest:
  assumes "pool_ok arts p" and "length (waiting p) = k"
  shows "pool_ok arts (run_turns sv up d (replicate k Main) p) \<and>
         waiting (run_turns sv up d (replicate k Main) p) = [] \<and>
         length (spawned (run_turns sv up d (replicate k Main) p)) = length arts"
  using assms
proof (induction k arbitrary: p)
  case 0
  then have "drop (length (spawned p)) arts = []" and "length (spawned p) \<le> length arts"
    by (simp_all add: pool_ok_def)
  with 0 show ?case
    by simp
next
  case (Suc k)
  then obtain x rest where w: "waiting p = x # rest"
    by (cases "waiting p") simp_all
  have "length (waiting (main_step p)) = k"
    using Suc.prems(2) w by (simp add: main_step_def)
  with Suc.IH [of "main_step p"] Suc.prems(1) show ?case
    by (simp add: main_step_ok)
qed

lemma run_tasks_to_end:
  assumes "pool_ok arts p" and "holder p = None" and "\<forall>i \<in> set is. i < length (spawned p)"
  shows "pool_ok arts (run_turns sv up d (concat (map (\<lambda>i. replicate 11 (Task i)) is)) p) \<and>
         holder (run_turns sv up d (concat (map (\<lambda>i. replicate 11 (Task i)) is)) p) = None \<and>
         length (spawned (run_turns sv up d (concat (map (\<lambda>i. replicate 11 (Task i)) is)) p)) =
           length (spawned p) \<and>
         waiting (run_turns sv up d (concat (map (\<lambda>i. replicate 11 (Task i)) is)) p) = waiting p \<and>
         (\<forall>j. j \<in> set is \<or> counter (spawned p ! j) = AtEnd \<longrightarrow>
            counter (spawned (run_turns sv up d
              (concat (map (\<lambda>i. replicate 11 (Task i)) is)) p) ! j) = AtEnd)"
  using assms
proof (induction "is" arbitrary: p)
  case Nil
  then show ?case by simp
next
  case (Cons i "is")
  let ?q = "run_turns sv up d (replicate 11 (Task i)) p"
  have i: "i < length (spawned p)"
    using Cons.prems(3) by simp
  have r: "rank (counter (spawned p ! i)) \<le> 11"
    by (cases "counter (spawned p ! i)") simp_all
  from run_task_to_end [OF Cons.prems(1) i _ r, of sv up d] Cons.prems(2)
  have q: "counter (spawned ?q ! i) = AtEnd" "holder ?q = None" "pool_ok arts ?q"
    "length (spawned ?q) = length (spawned p)" "waiting ?q = waiting p"
    "\<And>j. j \<noteq> i \<Longrightarrow> spawned ?q ! j = spawned p ! j"
    by simp_all
  have rest: "\<forall>i \<in> set is. i < length (spawned ?q)"
    using Cons.prems(3) q(4) by simp
  note ih = Cons.IH [OF q(3) q(2) rest]
  have kept: "counter (spawned ?q ! j) = AtEnd"
    if "j = i \<or> counter (spawned p ! j) = AtEnd" for j
    using that q(1) q(6) [of j] by (cases "j = i") auto
  show ?case
    using ih q(4,5) kept
    by (auto simp add: run_turns_append)
qed

lemma holder_spawned:
  assumes "pool_ok arts p" and "holder p = Some h"
  shows "h < length (spawned p)"
proof (rule ccontr)
  assume "\<not> h < length (spawned p)"
  then have "length (spawned p) \<le> h"
    by simp
  with assms(1) have "holder p \<noteq> Some h"
    unfolding pool_ok_def by blast
  with assms(2) show False
    by simp
qed

lemma settle_done:
  assumes ok: "pool_ok arts p"
  shows "pool_ok arts (settle sv up d p) \<and>
         waiting (settle sv up d p) = [] \<and>
         length (spawned (settle sv up d p)) = length arts \<and>
         holder (settle sv up d p) = None \<and>
         (\<forall>i < length arts. counter (spawned (settle sv up d p) ! i) = AtEnd)"
proof -
  let ?p1 = "run_turns sv up d (replicate (length (waiting p)) Main) p"
  let ?p2 = "case holder ?p1 of None \<Rightarrow> ?p1
             | Some h \<Rightarrow> run_turns sv up d (replicate 11 (Task h)) ?p1"
  let ?n = "length (spawned p) + length (waiting p)"
  from ok have n: "?n = length arts"
    by (simp add: pool_ok_def)
  from spawn_the_rest [OF ok refl, of sv up d]
  have p1: "pool_ok arts ?p1" "waiting ?p1 = []" "length (spawned ?p1) = length arts"
    by simp_all
  have p2: "pool_ok arts ?p2 \<and> waiting ?p2 = [] \<and> length (spawned ?p2) = length arts \<and>
            holder ?p2 = None"
  proof (cases "holder ?p1")
    case None
    with p1 show ?thesis by simp
  next
    case (Some h)
    from p1(1) Some have h: "h < length (spawned ?p1)"
      by (rule holder_spawned)
    have r: "rank (counter (spawned ?p1 ! h)) \<le> 11"
      by (cases "counter (spawned ?p1 ! h)") simp_all
    from run_task_to_end [OF p1(1) h _ r, of sv up d] Some p1 show ?thesis
      by simp
  qed
  have all: "\<forall>i \<in> set [0..<?n]. i < length (spawned ?p2)"
    using p2 n by simp
  from run_tasks_to_end [OF _ _ all, of arts sv up d] p2 n
  have "pool_ok arts (settle sv up d p) \<and> holder (settle sv up d p) = None \<and>
        length (spawned (settle sv up d p)) = length arts \<and>
        waiting (settle sv up d p) = [] \<and>
        (\<forall>j. j \<in> set [0..<?n] \<longrightarrow> counter (spawned (settle sv up d p) ! j) = AtEnd)"
    by (simp add: settle_def Let_def)
  with n show ?thesis
    by simp
qed

lemma settle_trace: "prefix (trace (shared p)) (trace (shared (settle sv up d p)))"
proof -
  let ?p1 = "run_turns sv up d (replicate (length (waiting p)) Main) p"
  let ?p2 = "case holder ?p1 of None \<Rightarrow> ?p1
             | Some h \<Rightarrow> run_turns sv up d (replicate 11 (Task h)) ?p1"
  have a: "prefix (trace (shared p)) (trace (shared ?p1))"
    by (rule run_turns_trace)
  have b: "prefix (trace (shared ?p1)) (trace (shared ?p2))"
    by (cases "holder ?p1") (simp_all add: run_turns_trace)
  have c: "prefix (trace (shared ?p2)) (trace (shared (settle sv up d p)))"
    by (simp add: settle_def Let_def run_turns_trace)
  from a b c show ?thesis
    using prefix_order.trans by blast
qed

lemma appends_by_task:
  assumes "\<forall>i \<ge> n. recorded tr i = []"
  shows "mset (appends_in tr) = (\<Sum>i<n. mset (recorded tr i))"
  using assms
proof (induction tr rule: appends_in.induct)
  case 1
  show ?case by simp
next
  case (2 j e tr)
  have j: "j < n"
  proof (rule ccontr)
    assume "\<not> j < n"
    then have "n \<le> j" by simp
    with "2.prems" have "recorded (Append j e # tr) j = []"
      by blast
    then show False by simp
  qed
  have rest: "\<forall>i \<ge> n. recorded tr i = []"
  proof (intro allI impI)
    fix i assume "n \<le> i"
    with "2.prems" have "recorded (Append j e # tr) i = []"
      by blast
    then show "recorded tr i = []"
      by (simp split: if_splits)
  qed
  have "(\<Sum>i<n. mset (recorded (Append j e # tr) i)) =
        (\<Sum>i<n. (if i = j then {#e#} else {#}) + mset (recorded tr i))"
    by (rule sum.cong) auto
  also have "\<dots> = (\<Sum>i<n. if i = j then {#e#} else {#}) + (\<Sum>i<n. mset (recorded tr i))"
    by (simp add: sum.distrib)
  also have "(\<Sum>i<n. if i = j then {#e#} else {#}) = {#e#}"
    using j by (simp add: sum.delta)
  finally show ?case
    using "2.IH" [OF rest] by simp
qed simp_all

lemma uploads_by_task:
  assumes "\<forall>i \<ge> n. attempts tr i = []"
  shows "mset (uploads_in tr) = (\<Sum>i<n. mset (map fst (attempts tr i)))"
  using assms
proof (induction tr rule: uploads_in.induct)
  case 1
  show ?case by simp
next
  case (2 j x a tr)
  have j: "j < n"
  proof (rule ccontr)
    assume "\<not> j < n"
    then have "n \<le> j" by simp
    with "2.prems" have "attempts (CallUpload j x a # tr) j = []"
      by blast
    then show False by simp
  qed
  have rest: "\<forall>i \<ge> n. attempts tr i = []"
  proof (intro allI impI)
    fix i assume "n \<le> i"
    with "2.prems" have "attempts (CallUpload j x a # tr) i = []"
      by blast
    then show "attempts tr i = []"
      by (simp split: if_splits)
  qed
  have "(\<Sum>i<n. mset (map fst (attempts (CallUpload j x a # tr) i))) =
        (\<Sum>i<n. (if i = j then {#x#} else {#}) + mset (map fst (attempts tr i)))"
    by (rule sum.cong) auto
  also have "\<dots> = (\<Sum>i<n. if i = j then {#x#} else {#}) +
                   (\<Sum>i<n. mset (map fst (attempts tr i)))"
    by (simp add: sum.distrib)
  also have "(\<Sum>i<n. if i = j then {#x#} else {#}) = {#x#}"
    using j by (simp add: sum.delta)
  finally show ?case
    using "2.IH" [OF rest] by simp
qed simp_all

lemma updates_by_task:
  assumes "\<forall>i \<ge> n. pushes tr i = []"
  shows "mset (updates_in tr) = (\<Sum>i<n. mset (map fst (pushes tr i)))"
  using assms
proof (induction tr rule: updates_in.induct)
  case 1
  show ?case by simp
next
  case (2 j x a tr)
  have j: "j < n"
  proof (rule ccontr)
    assume "\<not> j < n"
    then have "n \<le> j" by simp
    with "2.prems" have "pushes (CallUpdate j x a # tr) j = []"
      by blast
    then show False by simp
  qed
  have rest: "\<forall>i \<ge> n. pushes tr i = []"
  proof (intro allI impI)
    fix i assume "n \<le> i"
    with "2.prems" have "pushes (CallUpdate j x a # tr) i = []"
      by blast
    then show "pushes tr i = []"
      by (simp split: if_splits)
  qed
  have "(\<Sum>i<n. mset (map fst (pushes (CallUpdate j x a # tr) i))) =
        (\<Sum>i<n. (if i = j then {#x#} else {#}) + mset (map fst (pushes tr i)))"
    by (rule sum.cong) auto
  also have "\<dots> = (\<Sum>i<n. if i = j then {#x#} else {#}) +
                   (\<Sum>i<n. mset (map fst (pushes tr i)))"
    by (simp add: sum.distrib)
  also have "(\<Sum>i<n. if i = j then {#x#} else {#}) = {#x#}"
    using j by (simp add: sum.delta)
  finally show ?case
    using "2.IH" [OF rest] by simp
qed simp_all

lemma mset_by_index: "(\<Sum>i<length xs. {#xs ! i#}) = mset xs"
proof (induction xs rule: rev_induct)
  case Nil
  show ?case by simp
next
  case (snoc x xs)
  have "(\<Sum>i<length xs. {#(xs @ [x]) ! i#}) = (\<Sum>i<length xs. {#xs ! i#})"
    by (rule sum.cong) (simp_all add: nth_append)
  with snoc show ?case
    by simp
qed

lemma before_Wait_eq: "Wait \<notin> set xs \<Longrightarrow> before_Wait (xs @ Wait # ys) = xs"
  unfolding before_Wait_def by (induction xs) auto

lemma after_Wait_eq: "Wait \<notin> set xs \<Longrightarrow> after_Wait (xs @ Wait # ys) = ys"
  unfolding after_Wait_def by (induction xs) auto

lemma start_ok:
  assumes "\<forall>i. attempts (trace b) i = [] \<and> pushes (trace b) i = [] \<and> recorded (trace b) i = []"
    and "errors b = appends_in (trace b)" and "lock_run None (trace b) = Some None"
    and "Wait \<notin> set (trace b)" and "filter (\<lambda>x. x = Spawn) (trace b) = []"
  shows "pool_ok arts \<lparr>spawned = [], waiting = arts, holder = None, shared = b\<rparr>"
  using assms by (simp add: pool_ok_def)

lemma spawn_and_wait_done:
  assumes "\<forall>i. attempts (trace b) i = [] \<and> pushes (trace b) i = [] \<and> recorded (trace b) i = []"
    and "errors b = appends_in (trace b)" and "lock_run None (trace b) = Some None"
    and "Wait \<notin> set (trace b)" and "filter (\<lambda>x. x = Spawn) (trace b) = []"
  shows "(case spawn_and_wait sv up d arts b of
            (final, b') \<Rightarrow>
              length final = length arts \<and>
              (\<forall>i < length arts. \<exists>err err'.
                 attempts (trace b') i = [(arts ! i, err)] \<and>
                 final ! i = (arts ! i)\<lparr>State_Artifact := verdict err\<rparr> \<and>
                 pushes (trace b') i = [(final ! i, err')] \<and>
                 recorded (trace b') i = error_of err @ error_of err') \<and>
              (\<forall>i \<ge> length arts. attempts (trace b') i = [] \<and> pushes (trace b') i = [] \<and>
                 recorded (trace b') i = []) \<and>
              errors b' = appends_in (trace b') \<and>
              lock_run None (trace b') = Some None \<and>
              Wait \<notin> set (trace b') \<and>
              length (filter (\<lambda>x. x = Spawn) (trace b')) = length arts \<and>
              prefix (trace b) (trace b'))"
proof -
  let ?start = "\<lparr>spawned = [], waiting = arts, holder = None, shared = b\<rparr>"
  let ?mid = "run_turns sv up d (schedule sv) ?start"
  let ?last = "settle sv up d ?mid"
  have ok0: "pool_ok arts ?start"
    using assms by (rule start_ok)
  then have ok1: "pool_ok arts ?mid"
    by (rule run_turns_ok)
  have fin: "pool_ok arts ?last \<and> waiting ?last = [] \<and> length (spawned ?last) = length arts \<and>
      holder ?last = None \<and> (\<forall>i < length arts. counter (spawned ?last ! i) = AtEnd)"
    using ok1 by (rule settle_done)
  then have ok: "pool_ok arts ?last" and len: "length (spawned ?last) = length arts"
    and free: "holder ?last = None"
    and ended: "\<forall>i < length arts. counter (spawned ?last ! i) = AtEnd"
    by blast+
  have each: "\<exists>err err'.
      attempts (trace (shared ?last)) i = [(arts ! i, err)] \<and>
      map held (spawned ?last) ! i = (arts ! i)\<lparr>State_Artifact := verdict err\<rparr> \<and>
      pushes (trace (shared ?last)) i = [(map held (spawned ?last) ! i, err')] \<and>
      recorded (trace (shared ?last)) i = error_of err @ error_of err'"
    if i: "i < length arts" for i
  proof -
    from ok i len have "task_ok i (arts ! i) (spawned ?last ! i) (trace (shared ?last))"
      unfolding pool_ok_def by simp
    moreover from ended i have "counter (spawned ?last ! i) = AtEnd"
      by simp
    ultimately show ?thesis
      using i len by (auto simp add: task_ok_def)
  qed
  have none: "attempts (trace (shared ?last)) i = [] \<and> pushes (trace (shared ?last)) i = [] \<and>
      recorded (trace (shared ?last)) i = []"
    if "length arts \<le> i" for i
    using ok that len unfolding pool_ok_def by simp
  have rest: "errors (shared ?last) = appends_in (trace (shared ?last))"
    "lock_run None (trace (shared ?last)) = Some None"
    "Wait \<notin> set (trace (shared ?last))"
    "length (filter (\<lambda>x. x = Spawn) (trace (shared ?last))) = length arts"
    using ok len free unfolding pool_ok_def by simp_all
  have "prefix (trace b) (trace (shared ?mid))"
    using run_turns_trace [of ?start sv up d "schedule sv"] by simp
  moreover have "prefix (trace (shared ?mid)) (trace (shared ?last))"
    by (rule settle_trace)
  ultimately have grown: "prefix (trace b) (trace (shared ?last))"
    using prefix_order.trans by blast
  have res: "spawn_and_wait sv up d arts b = (map held (spawned ?last), shared ?last)"
    by (simp add: spawn_and_wait_def Let_def)
  show ?thesis
    unfolding res prod.case
    using each none rest grown len by simp
qed

lemma answered_snoc:
  "answered sv up d past (tr @ [y]) =
     (answered sv up d past tr \<and>
      (case y of
         CallUpload i x a \<Rightarrow> a = Uploader_Upload sv up d (past @ tr) x
       | CallUpdate i x a \<Rightarrow> a = Artifact_Update sv (past @ tr) x
       | _ \<Rightarrow> True))"
  by (induction sv up d past tr rule: answered.induct) (auto split: effect.splits)

lemma main_step_answered:
  "answered sv up d [] (trace (shared p)) \<Longrightarrow> answered sv up d [] (trace (shared (main_step p)))"
  by (simp add: main_step_def say_def answered_snoc split: list.splits)

lemma task_step_answered:
  "answered sv up d [] (trace (shared p)) \<Longrightarrow>
   answered sv up d [] (trace (shared (task_step sv up d i p)))"
  by (cases "counter (spawned p ! i)")
    (auto simp add: task_step_def move_def say_def Let_def answered_snoc split: option.splits)

lemma take_turn_answered:
  "answered sv up d [] (trace (shared p)) \<Longrightarrow>
   answered sv up d [] (trace (shared (take_turn sv up d p t)))"
  by (cases t) (simp_all add: main_step_answered task_step_answered)

lemma run_turns_answered:
  "answered sv up d [] (trace (shared p)) \<Longrightarrow>
   answered sv up d [] (trace (shared (run_turns sv up d turns p)))"
  by (induction turns arbitrary: p) (simp_all add: take_turn_answered)

lemma settle_answered:
  "answered sv up d [] (trace (shared p)) \<Longrightarrow>
   answered sv up d [] (trace (shared (settle sv up d p)))"
  by (simp add: settle_def Let_def run_turns_answered split: option.splits)

lemma spawn_and_wait_answered:
  "answered sv up d [] (trace b) \<Longrightarrow>
   answered sv up d [] (trace (snd (spawn_and_wait sv up d arts b)))"
  by (simp add: spawn_and_wait_def Let_def settle_answered run_turns_answered)

lemma lock_run_append:
  "lock_run h (xs @ ys) = (case lock_run h xs of None \<Rightarrow> None | Some h' \<Rightarrow> lock_run h' ys)"
  by (induction h xs rule: lock_run.induct) simp_all

lemma upload_registered:
  assumes "choose_uploader (Destination a) = Inr up"
    and "Uploader_Setup sv up (Destination a) = None"
    and "BatchCreator_Create sv (JobID a) (with_URLs sv up (Destination a) artifacts) = None"
  shows "upload a sv artifacts =
           (let start = \<lparr>errors = [], trace = [CallSetup up (Destination a),
                           CallCreate (JobID a) (with_URLs sv up (Destination a) artifacts)]\<rparr>;
                (final, b) = spawn_and_wait sv up (Destination a)
                               (with_URLs sv up (Destination a) artifacts) start
            in if errors b = []
               then (Returned None, final, say Wait b)
               else (Fatal failure_report, final, say (LogFatal failure_report) (say Wait b)))"
  using assms
  by (simp add: upload_def with_URLs_def failure_report_def say_def Let_def split_beta)

lemma uploads_in_append: "uploads_in (xs @ ys) = uploads_in xs @ uploads_in ys"
  by (induction xs rule: uploads_in.induct) simp_all

lemma attempts_append: "attempts (xs @ ys) i = attempts xs i @ attempts ys i"
  by (induction xs i rule: attempts.induct) simp_all

lemma task_step_own:
  "\<exists>more. trace (shared (task_step sv up d i p)) = trace (shared p) @ more \<and>
     uploads_in more = map fst (attempts more i) \<and>
     (\<forall>j. j \<noteq> i \<longrightarrow> attempts more j = [])"
  by (cases "counter (spawned p ! i)")
    (auto simp add: task_step_def move_def say_def Let_def split: option.splits)

lemma run_task_own:
  "\<exists>more. trace (shared (run_turns sv up d (replicate k (Task i)) p)) = trace (shared p) @ more \<and>
     uploads_in more = map fst (attempts more i) \<and>
     (\<forall>j. j \<noteq> i \<longrightarrow> attempts more j = [])"
proof (induction k arbitrary: p)
  case 0
  show ?case by simp
next
  case (Suc k)
  obtain m1 where m1: "trace (shared (task_step sv up d i p)) = trace (shared p) @ m1"
    "uploads_in m1 = map fst (attempts m1 i)" "\<forall>j. j \<noteq> i \<longrightarrow> attempts m1 j = []"
    using task_step_own [of sv up d i p] by blast
  obtain m2 where m2:
    "trace (shared (run_turns sv up d (replicate k (Task i)) (task_step sv up d i p))) =
       trace (shared (task_step sv up d i p)) @ m2"
    "uploads_in m2 = map fst (attempts m2 i)" "\<forall>j. j \<noteq> i \<longrightarrow> attempts m2 j = []"
    using Suc [of "task_step sv up d i p"] by blast
  show ?case
  proof (intro exI conjI)
    show "trace (shared (run_turns sv up d (replicate (Suc k) (Task i)) p)) =
            trace (shared p) @ (m1 @ m2)"
      using m1(1) m2(1) by simp
    show "uploads_in (m1 @ m2) = map fst (attempts (m1 @ m2) i)"
      using m1(2) m2(2) by (simp add: uploads_in_append attempts_append)
    show "\<forall>j. j \<noteq> i \<longrightarrow> attempts (m1 @ m2) j = []"
      using m1(3) m2(3) by (simp add: attempts_append)
  qed
qed

lemma spawns_own:
  "holder (run_turns sv up d (replicate k Main) p) = holder p \<and>
   uploads_in (trace (shared (run_turns sv up d (replicate k Main) p))) =
     uploads_in (trace (shared p)) \<and>
   (\<forall>j. attempts (trace (shared (run_turns sv up d (replicate k Main) p))) j =
        attempts (trace (shared p)) j)"
proof (induction k arbitrary: p)
  case 0
  show ?case by simp
next
  case (Suc k)
  have "holder (main_step p) = holder p \<and>
        uploads_in (trace (shared (main_step p))) = uploads_in (trace (shared p)) \<and>
        (\<forall>j. attempts (trace (shared (main_step p))) j = attempts (trace (shared p)) j)"
    by (simp add: main_step_def say_def uploads_in_append attempts_append split: list.splits)
  with Suc [of "main_step p"] show ?case
    by simp
qed

lemma tasks_in_turn:
  assumes "pool_ok arts p" and "holder p = None" and "length (spawned p) = length arts"
    and "uploads_in (trace (shared p)) = []" and "\<forall>j. attempts (trace (shared p)) j = []"
    and "k \<le> length arts"
  shows "pool_ok arts (run_turns sv up d (concat (map (\<lambda>i. replicate 11 (Task i)) [0..<k])) p) \<and>
         holder (run_turns sv up d (concat (map (\<lambda>i. replicate 11 (Task i)) [0..<k])) p) = None \<and>
         length (spawned (run_turns sv up d (concat (map (\<lambda>i. replicate 11 (Task i)) [0..<k])) p)) =
           length arts \<and>
         uploads_in (trace (shared (run_turns sv up d
           (concat (map (\<lambda>i. replicate 11 (Task i)) [0..<k])) p))) = take k arts \<and>
         (\<forall>j \<ge> k. attempts (trace (shared (run_turns sv up d
           (concat (map (\<lambda>i. replicate 11 (Task i)) [0..<k])) p))) j = [])"
  using assms(6)
proof (induction k)
  case 0
  with assms show ?case by simp
next
  case (Suc k)
  let ?q = "run_turns sv up d (concat (map (\<lambda>i. replicate 11 (Task i)) [0..<k])) p"
  let ?r = "run_turns sv up d (replicate 11 (Task k)) ?q"
  from Suc have q: "pool_ok arts ?q" "holder ?q = None" "length (spawned ?q) = length arts"
    "uploads_in (trace (shared ?q)) = take k arts" "\<forall>j \<ge> k. attempts (trace (shared ?q)) j = []"
    by simp_all
  have split: "run_turns sv up d (concat (map (\<lambda>i. replicate 11 (Task i)) [0..<Suc k])) p = ?r"
    by (simp add: run_turns_append)
  have k: "k < length (spawned ?q)"
    using Suc.prems q(3) by simp
  have rk: "rank (counter (spawned ?q ! k)) \<le> 11"
    by (cases "counter (spawned ?q ! k)") simp_all
  have free: "holder ?q = None \<or> holder ?q = Some k"
    using q(2) by simp
  have fin: "counter (spawned ?r ! k) = AtEnd \<and> holder ?r = None \<and> pool_ok arts ?r \<and>
      length (spawned ?r) = length (spawned ?q) \<and> waiting ?r = waiting ?q \<and>
      (\<forall>j. j \<noteq> k \<longrightarrow> spawned ?r ! j = spawned ?q ! j)"
    using q(1) k free rk by (rule run_task_to_end)
  obtain more where more: "trace (shared ?r) = trace (shared ?q) @ more"
    "uploads_in more = map fst (attempts more k)" "\<forall>j. j \<noteq> k \<longrightarrow> attempts more j = []"
    using run_task_own [of sv up d 11 k ?q] by blast
  from fin have "task_ok k (arts ! k) (spawned ?r ! k) (trace (shared ?r))"
    using k unfolding pool_ok_def by simp
  with fin obtain a where "attempts (trace (shared ?r)) k = [(arts ! k, a)]"
    by (auto simp add: task_ok_def)
  then have own: "attempts more k = [(arts ! k, a)]"
    using q(5) more(1) by (simp add: attempts_append)
  have ups: "uploads_in (trace (shared ?r)) = take (Suc k) arts"
    using more(1,2) own q(4) Suc.prems
    by (simp add: uploads_in_append take_Suc_conv_app_nth)
  have later: "\<forall>j \<ge> Suc k. attempts (trace (shared ?r)) j = []"
    using more(1,3) q(5) by (simp add: attempts_append)
  show ?case
    unfolding split using fin q(3) ups later by simp
qed

lemma spawn_and_wait_in_turn:
  assumes "\<forall>i. attempts (trace b) i = [] \<and> pushes (trace b) i = [] \<and> recorded (trace b) i = []"
    and "errors b = appends_in (trace b)" and "lock_run None (trace b) = Some None"
    and "Wait \<notin> set (trace b)" and "filter (\<lambda>x. x = Spawn) (trace b) = []"
    and "uploads_in (trace b) = []" and "schedule sv = []"
  shows "uploads_in (trace (snd (spawn_and_wait sv up d arts b))) = arts"
proof -
  let ?start = "\<lparr>spawned = [], waiting = arts, holder = None, shared = b\<rparr>"
  let ?mid = "run_turns sv up d (replicate (length arts) Main) ?start"
  have ok0: "pool_ok arts ?start"
    using assms(1-5) by (rule start_ok)
  have mid: "pool_ok arts ?mid \<and> waiting ?mid = [] \<and> length (spawned ?mid) = length arts"
    using ok0 by (rule spawn_the_rest) simp
  have own: "holder ?mid = holder ?start \<and>
      uploads_in (trace (shared ?mid)) = uploads_in (trace (shared ?start)) \<and>
      (\<forall>j. attempts (trace (shared ?mid)) j = attempts (trace (shared ?start)) j)"
    by (rule spawns_own)
  have h: "holder ?mid = None" and u: "uploads_in (trace (shared ?mid)) = []"
    and at: "\<forall>j. attempts (trace (shared ?mid)) j = []"
    using own assms(1,6) by simp_all
  have s: "settle sv up d ?start =
      run_turns sv up d (concat (map (\<lambda>i. replicate 11 (Task i)) [0..<length arts])) ?mid"
    using h by (simp add: settle_def Let_def)
  have "uploads_in (trace (shared (run_turns sv up d
          (concat (map (\<lambda>i. replicate 11 (Task i)) [0..<length arts])) ?mid))) =
        take (length arts) arts"
    using tasks_in_turn [of arts ?mid "length arts" sv up d] mid h u at by blast
  then show ?thesis
    using assms(7) by (simp add: spawn_and_wait_def Let_def s)
qed

lemma upload_run:
  assumes "choose_uploader (Destination a) = Inr up"
    and "Uploader_Setup sv up (Destination a) = None"
    and "BatchCreator_Create sv (JobID a) (with_URLs sv up (Destination a) artifacts) = None"
  shows "\<exists>final b2 more.
           upload a sv artifacts =
             (if errors b2 = [] then (Returned None, final, say Wait b2)
              else (Fatal failure_report, final, say (LogFatal failure_report) (say Wait b2))) \<and>
           trace b2 = [CallSetup up (Destination a),
                       CallCreate (JobID a) (with_URLs sv up (Destination a) artifacts)] @ more \<and>
           length final = length artifacts \<and>
           (\<forall>i < length artifacts. \<exists>err err'.
              attempts (trace b2) i = [(with_URLs sv up (Destination a) artifacts ! i, err)] \<and>
              final ! i = (with_URLs sv up (Destination a) artifacts ! i)
                            \<lparr>State_Artifact := verdict err\<rparr> \<and>
              pushes (trace b2) i = [(final ! i, err')] \<and>
              recorded (trace b2) i = error_of err @ error_of err') \<and>
           mset (uploads_in (trace b2)) = mset (with_URLs sv up (Destination a) artifacts) \<and>
           mset (updates_in (trace b2)) = mset final \<and>
           mset (errors b2) = (\<Sum>i<length artifacts. mset (recorded (trace b2) i)) \<and>
           errors b2 = appends_in (trace b2) \<and>
           lock_run None (trace b2) = Some None \<and>
           Wait \<notin> set (trace b2) \<and>
           length (filter (\<lambda>x. x = Spawn) (trace b2)) = length artifacts \<and>
           answered sv up (Destination a) [] (trace b2) \<and>
           (schedule sv = [] \<longrightarrow>
              uploads_in (trace b2) = with_URLs sv up (Destination a) artifacts)"
proof -
  let ?arts = "with_URLs sv up (Destination a) artifacts"
  let ?n = "length artifacts"
  let ?head = "[CallSetup up (Destination a), CallCreate (JobID a) ?arts]"
  let ?start = "\<lparr>errors = [], trace = ?head\<rparr>"
  obtain final b2 where sp: "spawn_and_wait sv up (Destination a) ?arts ?start = (final, b2)"
    by (cases "spawn_and_wait sv up (Destination a) ?arts ?start")
  have alen: "length ?arts = ?n"
    by (simp add: with_URLs_def)
  have "(case spawn_and_wait sv up (Destination a) ?arts ?start of
            (final, b') \<Rightarrow>
              length final = length ?arts \<and>
              (\<forall>i < length ?arts. \<exists>err err'.
                 attempts (trace b') i = [(?arts ! i, err)] \<and>
                 final ! i = (?arts ! i)\<lparr>State_Artifact := verdict err\<rparr> \<and>
                 pushes (trace b') i = [(final ! i, err')] \<and>
                 recorded (trace b') i = error_of err @ error_of err') \<and>
              (\<forall>i \<ge> length ?arts. attempts (trace b') i = [] \<and> pushes (trace b') i = [] \<and>
                 recorded (trace b') i = []) \<and>
              errors b' = appends_in (trace b') \<and>
              lock_run None (trace b') = Some None \<and>
              Wait \<notin> set (trace b') \<and>
              length (filter (\<lambda>x. x = Spawn) (trace b')) = length ?arts \<and>
              prefix (trace ?start) (trace b'))"
    by (rule spawn_and_wait_done) simp_all
  then have len: "length final = ?n"
    and each: "\<forall>i < ?n. \<exists>err err'.
       attempts (trace b2) i = [(?arts ! i, err)] \<and>
       final ! i = (?arts ! i)\<lparr>State_Artifact := verdict err\<rparr> \<and>
       pushes (trace b2) i = [(final ! i, err')] \<and>
       recorded (trace b2) i = error_of err @ error_of err'"
    and none: "\<forall>i \<ge> ?n. attempts (trace b2) i = [] \<and> pushes (trace b2) i = [] \<and>
       recorded (trace b2) i = []"
    and errs: "errors b2 = appends_in (trace b2)"
    and lck: "lock_run None (trace b2) = Some None"
    and nowait: "Wait \<notin> set (trace b2)"
    and spn: "length (filter (\<lambda>x. x = Spawn) (trace b2)) = ?n"
    and pre: "prefix ?head (trace b2)"
    unfolding sp prod.case alen by simp_all
  from pre obtain more where tr: "trace b2 = ?head @ more"
    unfolding prefix_def by blast
  have "answered sv up (Destination a) [] (trace ?start)"
    by simp
  then have "answered sv up (Destination a) []
      (trace (snd (spawn_and_wait sv up (Destination a) ?arts ?start)))"
    by (rule spawn_and_wait_answered)
  then have ans: "answered sv up (Destination a) [] (trace b2)"
    unfolding sp by simp
  have run: "upload a sv artifacts =
      (if errors b2 = [] then (Returned None, final, say Wait b2)
       else (Fatal failure_report, final, say (LogFatal failure_report) (say Wait b2)))"
    using upload_registered [OF assms] sp by simp
  have "mset (uploads_in (trace b2)) = (\<Sum>i<?n. mset (map fst (attempts (trace b2) i)))"
    using none by (intro uploads_by_task) simp
  also have "\<dots> = (\<Sum>i<?n. {#?arts ! i#})"
  proof (rule sum.cong)
    fix i assume "i \<in> {..<?n}"
    then have "i < ?n" by simp
    with each obtain err where "attempts (trace b2) i = [(?arts ! i, err)]"
      by blast
    then show "mset (map fst (attempts (trace b2) i)) = {#?arts ! i#}"
      by simp
  qed simp
  also have "\<dots> = mset ?arts"
    using mset_by_index [of ?arts] by (simp only: alen)
  finally have ups: "mset (uploads_in (trace b2)) = mset ?arts" .
  have "mset (updates_in (trace b2)) = (\<Sum>i<?n. mset (map fst (pushes (trace b2) i)))"
    using none by (intro updates_by_task) simp
  also have "\<dots> = (\<Sum>i<?n. {#final ! i#})"
  proof (rule sum.cong)
    fix i assume "i \<in> {..<?n}"
    then have "i < ?n" by simp
    with each obtain err' where "pushes (trace b2) i = [(final ! i, err')]"
      by blast
    then show "mset (map fst (pushes (trace b2) i)) = {#final ! i#}"
      by simp
  qed simp
  also have "\<dots> = mset final"
    using mset_by_index [of final] by (simp only: len)
  finally have upd: "mset (updates_in (trace b2)) = mset final" .
  have "mset (appends_in (trace b2)) = (\<Sum>i<?n. mset (recorded (trace b2) i))"
    using none by (intro appends_by_task) simp
  then have rec: "mset (errors b2) = (\<Sum>i<?n. mset (recorded (trace b2) i))"
    by (simp only: errs)
  have seq: "uploads_in (trace b2) = ?arts" if "schedule sv = []"
  proof -
    have "uploads_in (trace (snd (spawn_and_wait sv up (Destination a) ?arts ?start))) = ?arts"
      by (rule spawn_and_wait_in_turn) (simp_all add: that)
    then show ?thesis
      unfolding sp by simp
  qed
  show ?thesis
    using run tr len each ups upd rec errs lck nowait spn ans seq by blast
qed

text \<open>
  Claim C2. Once the transport is chosen and set up and the manifest is registered, the
  upload phase attempts every artifact, whatever happened to the others and whatever the
  scheduler does: in every run, before \<open>Wait\<close> returns, the task of each artifact calls
  \<open>uploader.Upload\<close> exactly once, on that artifact with its URL. The artifact ends
  \<open>finished\<close> when that call returned nil and \<open>error\<close> when it returned an error, and is
  otherwise unchanged; the task pushes it with its new state by exactly one call of
  \<open>artifact.Update\<close> in both cases; the errors the task appends are the error of its upload,
  if any, then that of its push, if any. There is no other upload and no other push: as
  multisets, the uploads are the manifest and the pushes are the final artifacts. \<open>errors\<close>
  holds the errors appended, in the order of the appends (which depends on the run), and they
  are those of the tasks; every answer is the one the transport or the server gave at that
  moment; every append happens while its task holds the lock, no task takes the lock while it
  is held, and the lock is free at the end. After \<open>Wait\<close> the only thing that happens is
  the report of overall failure, and it happens if and only if \<open>errors\<close> is not empty;
  otherwise \<open>upload\<close> returns nil. Nothing is done to the artifacts after \<open>Wait\<close>: the
  successful uploads stand.
\<close>

theorem upload_attempts_every_artifact:
  assumes "choose_uploader (Destination a) = Inr up"
    and "Uploader_Setup sv up (Destination a) = None"
    and "BatchCreator_Create sv (JobID a) (with_URLs sv up (Destination a) artifacts) = None"
  shows "(case upload a sv artifacts of
            (ended, final, b) \<Rightarrow>
              length final = length artifacts \<and>
              (\<forall>i < length artifacts. \<exists>err err'.
                 attempts (before_Wait (trace b)) i =
                   [(with_URLs sv up (Destination a) artifacts ! i, err)] \<and>
                 final ! i = (with_URLs sv up (Destination a) artifacts ! i)
                               \<lparr>State_Artifact := verdict err\<rparr> \<and>
                 pushes (before_Wait (trace b)) i = [(final ! i, err')] \<and>
                 recorded (before_Wait (trace b)) i = error_of err @ error_of err') \<and>
              mset (uploads_in (before_Wait (trace b))) =
                mset (with_URLs sv up (Destination a) artifacts) \<and>
              mset (updates_in (before_Wait (trace b))) = mset final \<and>
              mset (errors b) =
                (\<Sum>i<length artifacts. mset (recorded (before_Wait (trace b)) i)) \<and>
              errors b = appends_in (before_Wait (trace b)) \<and>
              answered sv up (Destination a) [] (trace b) \<and>
              lock_run None (trace b) = Some None \<and>
              after_Wait (trace b) = (if errors b = [] then [] else [LogFatal failure_report]) \<and>
              ended = (if errors b = [] then Returned None else Fatal failure_report))"
proof -
  let ?arts = "with_URLs sv up (Destination a) artifacts"
  let ?n = "length artifacts"
  from upload_run [OF assms] obtain final b2 where
    run: "upload a sv artifacts =
      (if errors b2 = [] then (Returned None, final, say Wait b2)
       else (Fatal failure_report, final, say (LogFatal failure_report) (say Wait b2)))"
    and len: "length final = ?n"
    and each: "\<forall>i < ?n. \<exists>err err'.
       attempts (trace b2) i = [(?arts ! i, err)] \<and>
       final ! i = (?arts ! i)\<lparr>State_Artifact := verdict err\<rparr> \<and>
       pushes (trace b2) i = [(final ! i, err')] \<and>
       recorded (trace b2) i = error_of err @ error_of err'"
    and ups: "mset (uploads_in (trace b2)) = mset ?arts"
    and upd: "mset (updates_in (trace b2)) = mset final"
    and rec: "mset (errors b2) = (\<Sum>i<?n. mset (recorded (trace b2) i))"
    and errs: "errors b2 = appends_in (trace b2)"
    and lck: "lock_run None (trace b2) = Some None"
    and nowait: "Wait \<notin> set (trace b2)"
    and ans: "answered sv up (Destination a) [] (trace b2)"
    by blast
  show ?thesis
  proof (cases "errors b2 = []")
    case True
    have t: "trace (say Wait b2) = trace b2 @ Wait # []"
      by (simp add: say_def)
    have bw: "before_Wait (trace (say Wait b2)) = trace b2"
      unfolding t using nowait by (rule before_Wait_eq)
    have aw: "after_Wait (trace (say Wait b2)) = []"
      unfolding t using nowait by (rule after_Wait_eq)
    have lk: "lock_run None (trace (say Wait b2)) = Some None"
      by (simp add: t lock_run_append lck)
    have an: "answered sv up (Destination a) [] (trace (say Wait b2))"
      using ans by (simp add: say_def answered_snoc)
    have er: "errors (say Wait b2) = errors b2"
      by (simp add: say_def)
    have res: "upload a sv artifacts = (Returned None, final, say Wait b2)"
      using run True by simp
    show ?thesis
      unfolding res prod.case bw aw lk er
      using True len each ups upd rec errs an by simp
  next
    case False
    let ?b' = "say (LogFatal failure_report) (say Wait b2)"
    have t: "trace ?b' = trace b2 @ Wait # [LogFatal failure_report]"
      by (simp add: say_def)
    have bw: "before_Wait (trace ?b') = trace b2"
      unfolding t using nowait by (rule before_Wait_eq)
    have aw: "after_Wait (trace ?b') = [LogFatal failure_report]"
      unfolding t using nowait by (rule after_Wait_eq)
    have lk: "lock_run None (trace ?b') = Some None"
      by (simp add: t lock_run_append lck)
    have "answered sv up (Destination a) [] ((trace b2 @ [Wait]) @ [LogFatal failure_report])"
      using ans by (simp only: answered_snoc) simp
    then have an: "answered sv up (Destination a) [] (trace ?b')"
      by (simp add: say_def)
    have er: "errors ?b' = errors b2"
      by (simp add: say_def)
    have res: "upload a sv artifacts = (Fatal failure_report, final, ?b')"
      using run False by simp
    show ?thesis
      unfolding res prod.case bw aw lk er
      using False len each ups upd rec errs an by simp
  qed
qed

text \<open>
  Two runs. In the first the uploads of \<open>b.log\<close> and \<open>c.log\<close> fail and the tasks are
  interleaved: the uploads are tried in the order \<open>b.log\<close>, \<open>c.log\<close>, \<open>a.log\<close>, and the error
  of \<open>c.log\<close> is appended before that of \<open>b.log\<close>. In the second the two artifacts are equal
  and fare differently: the task spawned second uploads first and succeeds, the other one is
  refused.
\<close>

theorem upload_attempts_every_artifact_witness:
  "choose_uploader (Destination uploader_s3) = Inr S3Uploader \<and>
   Uploader_Setup sv_racing S3Uploader (Destination uploader_s3) = None \<and>
   BatchCreator_Create sv_racing (JobID uploader_s3)
     (with_URLs sv_racing S3Uploader (Destination uploader_s3) three_logs) = None \<and>
   fst (upload uploader_s3 sv_racing three_logs) = Fatal failure_report \<and>
   map State_Artifact (fst (snd (upload uploader_s3 sv_racing three_logs))) =
     [''finished'', ''error'', ''error''] \<and>
   map Path (uploads_in (before_Wait
     (trace (snd (snd (upload uploader_s3 sv_racing three_logs)))))) =
     [''b.log'', ''c.log'', ''a.log''] \<and>
   map State_Artifact (updates_in (before_Wait
     (trace (snd (snd (upload uploader_s3 sv_racing three_logs)))))) =
     [''finished'', ''error'', ''error''] \<and>
   errors (snd (snd (upload uploader_s3 sv_racing three_logs))) =
     [''timeout'', ''403 Forbidden''] \<and>
   lock_run None (trace (snd (snd (upload uploader_s3 sv_racing three_logs)))) = Some None \<and>
   Uploader_Setup sv_conflict S3Uploader (Destination uploader_s3) = None \<and>
   BatchCreator_Create sv_conflict (JobID uploader_s3)
     (with_URLs sv_conflict S3Uploader (Destination uploader_s3) twice) = None \<and>
   twice ! 0 = twice ! 1 \<and>
   fst (upload uploader_s3 sv_conflict twice) = Fatal failure_report \<and>
   map State_Artifact (fst (snd (upload uploader_s3 sv_conflict twice))) =
     [''error'', ''finished''] \<and>
   errors (snd (snd (upload uploader_s3 sv_conflict twice))) = [''409 Conflict''] \<and>
   answered sv_conflict S3Uploader (Destination uploader_s3) []
     (trace (snd (snd (upload uploader_s3 sv_conflict twice))))"
proof -
  let ?d = "Destination uploader_s3"
  let ?r = "upload uploader_s3 sv_racing three_logs"
  let ?c = "upload uploader_s3 sv_conflict twice"
  have h1: "choose_uploader ?d = Inr S3Uploader"
    by (simp add: choose_uploader_def uploader_s3_def)
  have h2: "Uploader_Setup sv_racing S3Uploader ?d = None"
    by (simp add: sv_racing_def)
  have h3: "BatchCreator_Create sv_racing (JobID uploader_s3)
      (with_URLs sv_racing S3Uploader ?d three_logs) = None"
    by (simp add: sv_racing_def)
  have k2: "Uploader_Setup sv_conflict S3Uploader ?d = None"
    by (simp add: sv_conflict_def)
  have k3: "BatchCreator_Create sv_conflict (JobID uploader_s3)
      (with_URLs sv_conflict S3Uploader ?d twice) = None"
    by (simp add: sv_conflict_def)
  from upload_attempts_every_artifact [OF h1 h2 h3]
  have lk: "lock_run None (trace (snd (snd ?r))) = Some None"
    by (simp add: split_beta)
  from upload_attempts_every_artifact [OF h1 k2 k3]
  have an: "answered sv_conflict S3Uploader ?d [] (trace (snd (snd ?c)))"
    by (simp add: split_beta)
  have r1: "fst ?r = Fatal failure_report"
    by code_simp
  have r2: "map State_Artifact (fst (snd ?r)) = [''finished'', ''error'', ''error'']"
    by code_simp
  have r3: "map Path (uploads_in (before_Wait (trace (snd (snd ?r))))) =
      [''b.log'', ''c.log'', ''a.log'']"
    by code_simp
  have r4: "map State_Artifact (updates_in (before_Wait (trace (snd (snd ?r))))) =
      [''finished'', ''error'', ''error'']"
    by code_simp
  have r5: "errors (snd (snd ?r)) = [''timeout'', ''403 Forbidden'']"
    by code_simp
  have c0: "twice ! 0 = twice ! 1"
    by (simp add: twice_def)
  have c1: "fst ?c = Fatal failure_report"
    by code_simp
  have c2: "map State_Artifact (fst (snd ?c)) = [''error'', ''finished'']"
    by code_simp
  have c3: "errors (snd (snd ?c)) = [''409 Conflict'']"
    by code_simp
  from h1 h2 h3 r1 r2 r3 r4 r5 lk k2 k3 c0 c1 c2 c3 an show ?thesis
    by blast
qed

text \<open>
  Claim C5. Once the transport is chosen and set up, the first two effects of \<open>upload\<close> are
  the setup and the one batch registration, and the registration carries the whole manifest
  with each artifact's URL already assigned from the transport. When the registration fails,
  \<open>upload\<close> returns its error and these two effects are all there is: no task is spawned,
  no upload and no status update is sent. When it succeeds, every spawn (one for each
  artifact) and every upload comes after it, in every run: the uploads that follow it are, as
  a multiset, the manifest; their order depends on the scheduler, and it is that of the
  manifest when the scheduler leaves every task to \<open>Wait\<close>.
\<close>

theorem registration_precedes_uploads:
  assumes "choose_uploader (Destination a) = Inr up"
    and "Uploader_Setup sv up (Destination a) = None"
  shows "take 2 (trace (snd (snd (upload a sv artifacts)))) =
           [CallSetup up (Destination a),
            CallCreate (JobID a) (with_URLs sv up (Destination a) artifacts)] \<and>
         map URL (with_URLs sv up (Destination a) artifacts) =
           map (Uploader_URL sv up (Destination a)) artifacts \<and>
         (BatchCreator_Create sv (JobID a) (with_URLs sv up (Destination a) artifacts) = Some e \<longrightarrow>
            upload a sv artifacts =
              (Returned (Some e), with_URLs sv up (Destination a) artifacts,
               \<lparr>errors = [],
                trace = [CallSetup up (Destination a),
                         CallCreate (JobID a) (with_URLs sv up (Destination a) artifacts)]\<rparr>)) \<and>
         (BatchCreator_Create sv (JobID a) (with_URLs sv up (Destination a) artifacts) = None \<longrightarrow>
            length (filter (\<lambda>x. x = Spawn) (drop 2 (trace (snd (snd (upload a sv artifacts)))))) =
              length artifacts \<and>
            mset (uploads_in (drop 2 (trace (snd (snd (upload a sv artifacts)))))) =
              mset (with_URLs sv up (Destination a) artifacts) \<and>
            (schedule sv = [] \<longrightarrow>
               uploads_in (drop 2 (trace (snd (snd (upload a sv artifacts))))) =
                 with_URLs sv up (Destination a) artifacts))"
proof -
  let ?arts = "with_URLs sv up (Destination a) artifacts"
  let ?head = "[CallSetup up (Destination a), CallCreate (JobID a) ?arts]"
  let ?start = "\<lparr>errors = [], trace = ?head\<rparr>"
  let ?tr = "trace (snd (snd (upload a sv artifacts)))"
  have urls: "map URL ?arts = map (Uploader_URL sv up (Destination a)) artifacts"
    by (simp add: with_URLs_def)
  have failed: "upload a sv artifacts = (Returned (Some e), ?arts, ?start)"
    if "BatchCreator_Create sv (JobID a) ?arts = Some e"
    using assms that by (simp add: upload_def with_URLs_def say_def Let_def)
  have ok: "take 2 ?tr = ?head \<and>
            length (filter (\<lambda>x. x = Spawn) (drop 2 ?tr)) = length artifacts \<and>
            mset (uploads_in (drop 2 ?tr)) = mset ?arts \<and>
            (schedule sv = [] \<longrightarrow> uploads_in (drop 2 ?tr) = ?arts)"
    if c: "BatchCreator_Create sv (JobID a) ?arts = None"
  proof -
    from upload_run [OF assms c] obtain final b2 more where
      run: "upload a sv artifacts =
        (if errors b2 = [] then (Returned None, final, say Wait b2)
         else (Fatal failure_report, final, say (LogFatal failure_report) (say Wait b2)))"
      and tr: "trace b2 = ?head @ more"
      and ups: "mset (uploads_in (trace b2)) = mset ?arts"
      and spn: "length (filter (\<lambda>x. x = Spawn) (trace b2)) = length artifacts"
      and seq: "schedule sv = [] \<longrightarrow> uploads_in (trace b2) = ?arts"
      by blast
    have ups': "mset (uploads_in more) = mset ?arts"
      using ups by (simp add: tr)
    have spn': "length (filter (\<lambda>x. x = Spawn) more) = length artifacts"
      using spn by (simp add: tr)
    have seq': "schedule sv = [] \<longrightarrow> uploads_in more = ?arts"
      using seq by (simp add: tr)
    show ?thesis
      using ups' spn' seq'
      by (simp add: run say_def tr uploads_in_append)
  qed
  have head: "take 2 ?tr = ?head"
  proof (cases "BatchCreator_Create sv (JobID a) ?arts")
    case None
    with ok show ?thesis by simp
  next
    case (Some e')
    with assms show ?thesis
      by (simp add: upload_def with_URLs_def say_def Let_def)
  qed
  from head urls failed ok show ?thesis
    by blast
qed

theorem registration_precedes_uploads_witness:
  "choose_uploader (Destination uploader_s3) = Inr S3Uploader \<and>
   Uploader_Setup sv_unregistered S3Uploader (Destination uploader_s3) = None \<and>
   BatchCreator_Create sv_unregistered (JobID uploader_s3)
     (with_URLs sv_unregistered S3Uploader (Destination uploader_s3) three_logs) =
     Some ''422 Unprocessable Entity'' \<and>
   upload uploader_s3 sv_unregistered three_logs =
     (Returned (Some ''422 Unprocessable Entity''),
      with_URLs sv_unregistered S3Uploader ''s3://bucket/path'' three_logs,
      \<lparr>errors = [],
       trace = [CallSetup S3Uploader ''s3://bucket/path'',
                CallCreate ''7''
                  (with_URLs sv_unregistered S3Uploader ''s3://bucket/path'' three_logs)]\<rparr>) \<and>
   BatchCreator_Create sv_one_fails (JobID uploader_s3)
     (with_URLs sv_one_fails S3Uploader (Destination uploader_s3) three_logs) = None \<and>
   take 2 (trace (snd (snd (upload uploader_s3 sv_one_fails three_logs)))) =
     [CallSetup S3Uploader ''s3://bucket/path'',
      CallCreate ''7'' (with_URLs sv_one_fails S3Uploader ''s3://bucket/path'' three_logs)] \<and>
   map URL (with_URLs sv_one_fails S3Uploader ''s3://bucket/path'' three_logs) =
     [''https://bucket.s3.amazonaws.com/path/a.log'',
      ''https://bucket.s3.amazonaws.com/path/b.log'',
      ''https://bucket.s3.amazonaws.com/path/c.log''] \<and>
   schedule sv_one_fails = [] \<and>
   map Path (uploads_in (drop 2 (trace (snd (snd (upload uploader_s3 sv_one_fails three_logs)))))) =
     [''a.log'', ''b.log'', ''c.log''] \<and>
   BatchCreator_Create sv_racing (JobID uploader_s3)
     (with_URLs sv_racing S3Uploader (Destination uploader_s3) three_logs) = None \<and>
   length (filter (\<lambda>x. x = Spawn)
     (drop 2 (trace (snd (snd (upload uploader_s3 sv_racing three_logs)))))) = 3 \<and>
   map Path (uploads_in (drop 2 (trace (snd (snd (upload uploader_s3 sv_racing three_logs)))))) =
     [''b.log'', ''c.log'', ''a.log'']"
proof -
  let ?d = "Destination uploader_s3"
  have h1: "choose_uploader ?d = Inr S3Uploader"
    by (simp add: choose_uploader_def uploader_s3_def)
  have u2: "Uploader_Setup sv_unregistered S3Uploader ?d = None"
    by (simp add: sv_unregistered_def sv_one_fails_def)
  have u3: "BatchCreator_Create sv_unregistered (JobID uploader_s3)
      (with_URLs sv_unregistered S3Uploader ?d three_logs) = Some ''422 Unprocessable Entity''"
    by (simp add: sv_unregistered_def sv_one_fails_def)
  have o2: "Uploader_Setup sv_one_fails S3Uploader ?d = None"
    by (simp add: sv_one_fails_def)
  have o3: "BatchCreator_Create sv_one_fails (JobID uploader_s3)
      (with_URLs sv_one_fails S3Uploader ?d three_logs) = None"
    by (simp add: sv_one_fails_def)
  have o4: "schedule sv_one_fails = []"
    by (simp add: sv_one_fails_def)
  have r2: "Uploader_Setup sv_racing S3Uploader ?d = None"
    by (simp add: sv_racing_def)
  have r3: "BatchCreator_Create sv_racing (JobID uploader_s3)
      (with_URLs sv_racing S3Uploader ?d three_logs) = None"
    by (simp add: sv_racing_def)
  have d: "?d = ''s3://bucket/path''" "JobID uploader_s3 = ''7''"
    by (simp_all add: uploader_s3_def)
  from registration_precedes_uploads [OF h1 u2, of three_logs "''422 Unprocessable Entity''"] u3
  have a: "upload uploader_s3 sv_unregistered three_logs =
     (Returned (Some ''422 Unprocessable Entity''),
      with_URLs sv_unregistered S3Uploader ''s3://bucket/path'' three_logs,
      \<lparr>errors = [],
       trace = [CallSetup S3Uploader ''s3://bucket/path'',
                CallCreate ''7''
                  (with_URLs sv_unregistered S3Uploader ''s3://bucket/path'' three_logs)]\<rparr>)"
    by (simp add: d)
  from registration_precedes_uploads [OF h1 o2, of three_logs "''422 Unprocessable Entity''"] o3 o4
  have b: "take 2 (trace (snd (snd (upload uploader_s3 sv_one_fails three_logs)))) =
     [CallSetup S3Uploader ''s3://bucket/path'',
      CallCreate ''7'' (with_URLs sv_one_fails S3Uploader ''s3://bucket/path'' three_logs)]"
    and c: "uploads_in (drop 2 (trace (snd (snd (upload uploader_s3 sv_one_fails three_logs))))) =
      with_URLs sv_one_fails S3Uploader ''s3://bucket/path'' three_logs"
    by (simp_all add: d)
  have urls: "map URL (with_URLs sv_one_fails S3Uploader ''s3://bucket/path'' three_logs) =
     [''https://bucket.s3.amazonaws.com/path/a.log'',
      ''https://bucket.s3.amazonaws.com/path/b.log'',
      ''https://bucket.s3.amazonaws.com/path/c.log'']"
    by (simp add: with_URLs_def three_logs_def log_file_def sv_one_fails_def)
  have paths: "map Path (with_URLs sv_one_fails S3Uploader ''s3://bucket/path'' three_logs) =
     [''a.log'', ''b.log'', ''c.log'']"
    by (simp add: with_URLs_def three_logs_def log_file_def)
  have c': "map Path (uploads_in (drop 2
      (trace (snd (snd (upload uploader_s3 sv_one_fails three_logs)))))) =
      [''a.log'', ''b.log'', ''c.log'']"
    by (simp only: c paths)
  from registration_precedes_uploads [OF h1 r2, of three_logs "''422 Unprocessable Entity''"] r3
  have e: "length (filter (\<lambda>x. x = Spawn)
      (drop 2 (trace (snd (snd (upload uploader_s3 sv_racing three_logs)))))) = 3"
    by (simp add: three_logs_def)
  have f: "map Path (uploads_in (drop 2
      (trace (snd (snd (upload uploader_s3 sv_racing three_logs)))))) =
      [''b.log'', ''c.log'', ''a.log'']"
    by code_simp
  from h1 u2 u3 a o3 b urls o4 c' r3 e f show ?thesis
    by blast
qed

lemma registration_head:
  assumes "choose_uploader (Destination a) = Inr up"
    and "Uploader_Setup sv up (Destination a) = None"
  shows "\<exists>more. trace (snd (snd (upload a sv artifacts))) =
           CallSetup up (Destination a) #
           CallCreate (JobID a) (with_URLs sv up (Destination a) artifacts) # more"
proof (cases "BatchCreator_Create sv (JobID a) (with_URLs sv up (Destination a) artifacts)")
  case (Some e)
  with assms show ?thesis
    by (simp add: upload_def with_URLs_def say_def Let_def)
next
  case None
  from upload_run [OF assms None] obtain final b2 more where
    run: "upload a sv artifacts =
      (if errors b2 = [] then (Returned None, final, say Wait b2)
       else (Fatal failure_report, final, say (LogFatal failure_report) (say Wait b2)))"
    and tr: "trace b2 = [CallSetup up (Destination a),
        CallCreate (JobID a) (with_URLs sv up (Destination a) artifacts)] @ more"
    by blast
  show ?thesis
    by (simp add: run say_def tr)
qed

text \<open>
  Claim C6. The choice of the transport is a total three-way dispatch on the destination: the
  empty destination gives the form uploader, a destination that starts with \<open>s3://\<close> gives
  the S3 uploader, and any other destination gives the error \<open>Unknown upload destination\<close>,
  which \<open>upload\<close> returns with no effect at all (no setup, no registration, no upload) and
  with the artifacts untouched (no URL assigned). In the two other cases the first effect is
  the setup of the chosen uploader.
\<close>

theorem transport_selection_three_way:
  "choose_uploader (Destination a) =
     (if Destination a = '''' then Inr FormUploader
      else if prefix ''s3://'' (Destination a) then Inr S3Uploader
      else Inl (''Unknown upload destination: '' @ Destination a)) \<and>
   (Destination a \<noteq> '''' \<and> \<not> prefix ''s3://'' (Destination a) \<longrightarrow>
      upload a sv artifacts =
        (Returned (Some (''Unknown upload destination: '' @ Destination a)), artifacts,
         \<lparr>errors = [], trace = []\<rparr>)) \<and>
   (Destination a = '''' \<longrightarrow>
      take 1 (trace (snd (snd (upload a sv artifacts)))) = [CallSetup FormUploader '''']) \<and>
   (prefix ''s3://'' (Destination a) \<longrightarrow>
      take 1 (trace (snd (snd (upload a sv artifacts)))) =
        [CallSetup S3Uploader (Destination a)])"
proof -
  have first: "take 1 (trace (snd (snd (upload a sv artifacts)))) = [CallSetup up (Destination a)]"
    if c: "choose_uploader (Destination a) = Inr up" for up
  proof (cases "Uploader_Setup sv up (Destination a)")
    case (Some e)
    with c show ?thesis
      by (simp add: upload_def)
  next
    case None
    from registration_head [OF c None, of artifacts] show ?thesis
      by auto
  qed
  show ?thesis
    using first [of FormUploader] first [of S3Uploader]
    by (auto simp add: choose_uploader_def upload_def)
qed

theorem transport_selection_three_way_witness:
  "choose_uploader (Destination uploader_form) = Inr FormUploader \<and>
   choose_uploader (Destination uploader_s3) = Inr S3Uploader \<and>
   choose_uploader (Destination uploader_ftp) =
     Inl ''Unknown upload destination: ftp://host/dir'' \<and>
   upload uploader_ftp sv_one_fails three_logs =
     (Returned (Some ''Unknown upload destination: ftp://host/dir''), three_logs,
      \<lparr>errors = [], trace = []\<rparr>) \<and>
   take 1 (trace (snd (snd (upload uploader_form sv_one_fails three_logs)))) =
     [CallSetup FormUploader ''''] \<and>
   take 1 (trace (snd (snd (upload uploader_s3 sv_one_fails three_logs)))) =
     [CallSetup S3Uploader ''s3://bucket/path'']"
  using
    transport_selection_three_way [of uploader_form sv_one_fails three_logs]
    transport_selection_three_way [of uploader_s3 sv_one_fails three_logs]
    transport_selection_three_way [of uploader_ftp sv_one_fails three_logs]
  by (simp add: uploader_s3_def uploader_form_def uploader_ftp_def)

lemma calls_in_snoc_debug: "calls_in (tr @ [LogDebug m]) = calls_in tr"
  by (simp add: calls_in_def)

lemma collect_files_calls:
  "calls_in (snd (collect_files a fs g matched (arts, tr))) = calls_in tr"
proof (induction matched arbitrary: arts tr)
  case Nil
  show ?case by simp
next
  case (Cons f rest)
  show ?case
    by (simp add: Cons.IH calls_in_snoc_debug Let_def split: sum.splits result.splits)
qed

lemma collect_globs_calls:
  "calls_in (snd (collect_globs a fs pats (arts, tr))) = calls_in tr"
proof (induction pats arbitrary: arts tr)
  case Nil
  show ?case by simp
next
  case (Cons pat rest)
  show ?case
  proof (cases "TrimSpace pat = []")
    case True
    then show ?thesis
      by (simp add: Cons.IH)
  next
    case False
    let ?tr1 = "tr @ [LogDebug (''Globbing '' @ Getwd fs @ '' for '' @ TrimSpace pat)]"
    show ?thesis
    proof (cases "Glob fs (Getwd fs) (TrimSpace pat)")
      case (Inl e)
      with False show ?thesis
        by (simp add: calls_in_snoc_debug del: append.simps)
    next
      case (Inr matched)
      obtain r tr2 where cf: "collect_files a fs (TrimSpace pat) matched (arts, ?tr1) = (r, tr2)"
        by (cases "collect_files a fs (TrimSpace pat) matched (arts, ?tr1)")
      have "calls_in (snd (collect_files a fs (TrimSpace pat) matched (arts, ?tr1))) = calls_in ?tr1"
        by (rule collect_files_calls)
      then have tr2: "calls_in tr2 = calls_in tr"
        unfolding cf by (simp only: snd_conv calls_in_snoc_debug)
      have step: "collect_globs a fs (pat # rest) (arts, tr) =
          (case r of Err e \<Rightarrow> (Err e, tr2) | Crash \<Rightarrow> (Crash, tr2)
           | Ok arts' \<Rightarrow> collect_globs a fs rest (arts', tr2))"
        using False Inr cf by (simp del: append.simps)
      show ?thesis
        unfolding step using tr2 by (cases r) (simp_all add: Cons.IH)
    qed
  qed
qed

lemma collect_calls: "calls_in (snd (collect a fs)) = []"
  by (simp add: collect_def collect_globs_calls) (simp add: calls_in_def)

text \<open>
  Claim C10. When collection yields no artifact, \<open>Upload\<close> returns nil right after logging
  \<open>No files matched paths\<close>: its effects are the debug lines of the collection and that one
  line, and none of them is a call to a transport, to the server or to the pool.
\<close>

theorem nothing_matched_returns_at_once:
  assumes "fst (collect a fs) = Ok []"
  shows "Upload a fs sv =
           (Returned None, [],
            snd (collect a fs) @ [LogInfo (''No files matched paths: '' @ Paths a)]) \<and>
         calls_in (snd (snd (Upload a fs sv))) = []"
proof -
  obtain tr where c: "collect a fs = (Ok [], tr)"
    using assms by (cases "collect a fs") simp
  have u: "Upload a fs sv = (Returned None, [], tr @ [LogInfo (''No files matched paths: '' @ Paths a)])"
    by (simp add: Upload_def c)
  have "calls_in tr = []"
    using collect_calls [of a fs] c by simp
  then have "calls_in (tr @ [LogInfo (''No files matched paths: '' @ Paths a)]) = []"
    by (simp add: calls_in_def)
  with u c show ?thesis
    by simp
qed

theorem nothing_matched_returns_at_once_witness:
  "fst (collect uploader_s3 (directory [])) = Ok [] \<and>
   Upload uploader_s3 (directory []) sv_one_fails =
     (Returned None, [],
      [LogDebug ''Globbing /w for *.log'', LogDebug ''Globbing /w for out/*'',
       LogInfo ''No files matched paths: *.log; ;out/*''])"
proof -
  have c: "collect uploader_s3 (directory []) =
      (Ok [], [LogDebug ''Globbing /w for *.log'', LogDebug ''Globbing /w for out/*''])"
    by (simp add: collect_simps uploader_inputs)
  then have h: "fst (collect uploader_s3 (directory [])) = Ok []"
    by simp
  from nothing_matched_returns_at_once [OF h, of sv_one_fails] c h show ?thesis
    by (simp add: uploader_s3_def)
qed

text \<open>
  Claim C3 says that any I/O error while statting or hashing a file aborts the collection and
  is returned. Two of the fallible calls are not checked. \<open>build\<close> drops the error of
  \<open>io.Copy\<close>: when reading \<open>/w/out.bin\<close> fails after three of its eight bytes, collection
  succeeds with a manifest whose checksum is that of the three bytes. \<open>collect\<close> never reads
  the error of \<open>os.Stat\<close>: when \<open>os.Stat\<close> fails, collection ends in a nil dereference, not
  in a returned error.
\<close>

theorem collection_swallows_read_error:
  "snd (Copy fs_short_read ''/w/out.bin'') = Some ''read /w/out.bin: input/output error'' \<and>
   collect uploader_bin fs_short_read =
     (Ok [\<lparr>JobID_Artifact = ''7'', State_Artifact = ''new'', Path = ''out.bin'',
           AbsolutePath = ''/w/out.bin'', GlobPath = ''out.bin'', FileSize = 8,
           Sha1Sum = ''a9993e364706816aba3e25717850c26c9cd0d89d'', URL = ''''\<rparr>],
      [LogDebug ''Globbing /w for out.bin'']) \<and>
   Stat fs_dangling ''/w/out.bin'' = Inl ''stat /w/out.bin: no such file or directory'' \<and>
   collect uploader_bin fs_dangling = (Crash, [LogDebug ''Globbing /w for out.bin''])"
  by (simp add: collect_simps uploader_inputs)

end
